theory Spec2Isabelle
  imports Main "HOL-Library.Word"
begin

section \<open>Recovering the bash hash table: the plugin \<open>linux_bash_hash\<close>\<close>

text \<open>
  A shallow embedding of \<^verbatim>\<open>volatility/plugins/linux/bash_hash.py\<close>: the two
  layout tables, the validity test of \<^verbatim>\<open>_bash_hash_table\<close>, the profile
  modification and the generator \<^verbatim>\<open>linux_bash_hash.calculate\<close> with its
  renderer. Addresses and offsets are Python integers that are never negative
  here, so they are \<open>nat\<close>; the C \<^verbatim>\<open>int\<close> fields are signed 32-bit values read
  into \<open>int\<close>.
\<close>

subsection \<open>Layout tables\<close>

text \<open>
  One record per vtypes dictionary: the byte offset of every member, under the
  name \<open>structure_member\<close>. The structure sizes of the dictionaries (8, 20, 0xc
  and 12, 32, 16) are used nowhere in the plugin and are left out.
\<close>

record vtypes =
  pathdata_path :: nat
  pathdata_flags :: nat
  bucket_contents_next :: nat
  bucket_contents_key :: nat
  bucket_contents_data :: nat
  bucket_contents_times_found :: nat
  bash_hash_table_bucket_array :: nat
  bash_hash_table_nbuckets :: nat
  bash_hash_table_nentries :: nat

definition bash_hash_vtypes_32 :: vtypes where
  "bash_hash_vtypes_32 = \<lparr>
     pathdata_path = 0x0,
     pathdata_flags = 0x4,
     bucket_contents_next = 0x0,
     bucket_contents_key = 0x4,
     bucket_contents_data = 0x8,
     bucket_contents_times_found = 16,
     bash_hash_table_bucket_array = 0x0,
     bash_hash_table_nbuckets = 0x4,
     bash_hash_table_nentries = 0x8 \<rparr>"

definition bash_hash_vtypes_64 :: vtypes where
  "bash_hash_vtypes_64 = \<lparr>
     pathdata_path = 0x0,
     pathdata_flags = 0x8,
     bucket_contents_next = 0,
     bucket_contents_key = 8,
     bucket_contents_data = 16,
     bucket_contents_times_found = 28,
     bash_hash_table_bucket_array = 0,
     bash_hash_table_nbuckets = 8,
     bash_hash_table_nentries = 12 \<rparr>"

text \<open>
  A profile as the plugin sees it: the metadata entry \<^verbatim>\<open>memory_model\<close> (a
  dictionary entry that may be absent) and the width of the native pointer
  type; after the modification, also the layout table in force.
\<close>

record base_profile =
  memory_model :: "string option"
  pointer_size :: nat

record profile = base_profile +
  profile_vtypes :: vtypes

text \<open>\<^verbatim>\<open>BashHashTypes.modification\<close>: the table is chosen by the memory model,
  \<^verbatim>\<open>32bit\<close> when the metadata has none.\<close>

definition modification :: "base_profile \<Rightarrow> profile" where
  "modification prof =
     (if (case memory_model prof of None \<Rightarrow> ''32bit'' | Some m \<Rightarrow> m) = ''32bit''
      then \<lparr> memory_model = memory_model prof, pointer_size = pointer_size prof,
             profile_vtypes = bash_hash_vtypes_32 \<rparr>
      else \<lparr> memory_model = memory_model prof, pointer_size = pointer_size prof,
             profile_vtypes = bash_hash_vtypes_64 \<rparr>)"

text \<open>Modelled from the spec: the profiles of the framework are not part of
  the sources. The specification has two memory-width profiles, a narrow and a
  wide pointer model; the narrow one has 4-byte pointers and the memory model
  \<^verbatim>\<open>32bit\<close>, the wide one 8-byte pointers and the memory model \<^verbatim>\<open>64bit\<close>.\<close>

definition narrow_profile :: profile where
  "narrow_profile = modification \<lparr> memory_model = Some ''32bit'', pointer_size = 4 \<rparr>"

definition wide_profile :: profile where
  "wide_profile = modification \<lparr> memory_model = Some ''64bit'', pointer_size = 8 \<rparr>"

text \<open>\<^verbatim>\<open>profile.get_obj_offset("_bash_hash_table", "nbuckets")\<close>.\<close>

definition nbuckets_offset :: "profile \<Rightarrow> nat" where
  "nbuckets_offset prof = bash_hash_table_nbuckets (profile_vtypes prof)"

subsection \<open>The address-space reader\<close>

type_synonym byte = "8 word"

text \<open>A process address space: a sparse, byte-addressable memory. An unmapped
  address has no byte.\<close>

type_synonym addr_space = "nat \<Rightarrow> byte option"

text \<open>Modelled from the spec: the address-space classes of the framework are
  not part of the sources. \<open>is_valid_address\<close> is the operation
  \<open>resolveAddress\<close> of the specification: whether an address refers to mapped
  memory.\<close>

definition is_valid_address :: "addr_space \<Rightarrow> nat \<Rightarrow> bool" where
  "is_valid_address vm a = (vm a \<noteq> None)"

text \<open>Modelled from the spec: \<open>read\<close> is the operation \<open>readBytes\<close> of the
  specification. It returns exactly \<open>n\<close> bytes, or \<open>None\<close> (a read failure) when
  one of them is unmapped.\<close>

fun read :: "addr_space \<Rightarrow> nat \<Rightarrow> nat \<Rightarrow> byte list option" where
  "read vm a 0 = Some []"
| "read vm a (Suc n) =
     (case vm a of
        None \<Rightarrow> None
      | Some b \<Rightarrow> (case read vm (Suc a) n of None \<Rightarrow> None | Some bs \<Rightarrow> Some (b # bs)))"

text \<open>Modelled from the spec: \<^verbatim>\<open>zread\<close> is the reader's zero-padded read, the
  one the scanner calls. It always returns \<open>n\<close> bytes: those of the memory when
  the read succeeds, and zero bytes when it fails.\<close>

definition zread :: "addr_space \<Rightarrow> nat \<Rightarrow> nat \<Rightarrow> byte list" where
  "zread vm a n = (case read vm a n of None \<Rightarrow> replicate n 0 | Some bs \<Rightarrow> bs)"

text \<open>The value of a little-endian byte string.\<close>

fun le_nat :: "byte list \<Rightarrow> nat" where
  "le_nat [] = 0"
| "le_nat (b # bs) = unat b + 256 * le_nat bs"

datatype error = StructError

text \<open>\<^verbatim>\<open>struct.unpack("<I", dr)[0]\<close>: a little-endian unsigned 32-bit integer;
  \<^verbatim>\<open>struct.error\<close> is raised unless the buffer has exactly 4 bytes.\<close>

definition unpack_I :: "byte list \<Rightarrow> error + nat" where
  "unpack_I dr = (if length dr = 4 then Inr (le_nat dr) else Inl StructError)"

text \<open>Modelled from the spec: the object classes of the framework are not part
  of the sources. A member of type \<^verbatim>\<open>int\<close> is a signed 32-bit little-endian
  integer and a member of type \<^verbatim>\<open>pointer\<close> an unsigned little-endian integer
  of the profile's pointer width; a member that cannot be read has no value
  (the framework's \<^verbatim>\<open>NoneObject\<close>, which is false in every test).\<close>

definition signed32 :: "nat \<Rightarrow> int" where
  "signed32 n = (if n < 2 ^ 31 then int n else int n - 2 ^ 32)"

definition read_int :: "addr_space \<Rightarrow> nat \<Rightarrow> int option" where
  "read_int vm a = map_option (\<lambda>bs. signed32 (le_nat bs)) (read vm a 4)"

definition read_pointer :: "profile \<Rightarrow> addr_space \<Rightarrow> nat \<Rightarrow> nat option" where
  "read_pointer prof vm a = map_option le_nat (read vm a (pointer_size prof))"

text \<open>\<^verbatim>\<open>Pointer.is_valid()\<close> of the pointer stored at address \<open>a\<close>: its value
  can be read and resolves.\<close>

definition pointer_is_valid :: "profile \<Rightarrow> addr_space \<Rightarrow> nat \<Rightarrow> bool" where
  "pointer_is_valid prof vm a =
     (case read_pointer prof vm a of None \<Rightarrow> False | Some p \<Rightarrow> is_valid_address vm p)"

text \<open>Dereferencing the pointer stored at address \<open>a\<close>: the address of the
  object it points to, or \<open>None\<close> when the value cannot be read or does not
  resolve.\<close>

definition dereference :: "profile \<Rightarrow> addr_space \<Rightarrow> nat \<Rightarrow> nat option" where
  "dereference prof vm a =
     (case read_pointer prof vm a of
        None \<Rightarrow> None
      | Some p \<Rightarrow> if is_valid_address vm p then Some p else None)"

subsection \<open>The structure validator\<close>

text \<open>\<^verbatim>\<open>obj.CType.is_valid\<close>, modelled from the spec as the other object
  operations: the structure's own offset resolves.\<close>

definition CType_is_valid :: "addr_space \<Rightarrow> nat \<Rightarrow> bool" where
  "CType_is_valid vm off = is_valid_address vm off"

text \<open>\<^verbatim>\<open>_bash_hash_table.is_valid\<close> for the table materialised at \<open>off\<close>.\<close>

definition bash_hash_table_is_valid :: "profile \<Rightarrow> addr_space \<Rightarrow> nat \<Rightarrow> bool" where
  "bash_hash_table_is_valid prof vm off =
     (if \<not> CType_is_valid vm off
         \<or> \<not> pointer_is_valid prof vm (off + bash_hash_table_bucket_array (profile_vtypes prof))
         \<or> \<not> read_int vm (off + bash_hash_table_nbuckets (profile_vtypes prof)) = Some 64
         \<or> \<not> (case read_int vm (off + bash_hash_table_nentries (profile_vtypes prof)) of
                None \<Rightarrow> False | Some n \<Rightarrow> n > 1)
      then False
      else True)"

subsection \<open>Chain traversal\<close>

text \<open>The current \<^verbatim>\<open>bucket\<close> of the loop is the address of a
  \<^verbatim>\<open>bucket_contents\<close>, or \<open>None\<close> when the pointer leading to it could not be
  dereferenced. The loop condition
  \<^verbatim>\<open>bucket.times_found > 0 and bucket.data.is_valid() and bucket.key.is_valid()\<close>:\<close>

definition loop_condition :: "profile \<Rightarrow> addr_space \<Rightarrow> nat option \<Rightarrow> bool" where
  "loop_condition prof vm bucket =
     (case bucket of
        None \<Rightarrow> False
      | Some b \<Rightarrow>
          (case read_int vm (b + bucket_contents_times_found (profile_vtypes prof)) of
             None \<Rightarrow> False | Some t \<Rightarrow> t > 0)
          \<and> pointer_is_valid prof vm (b + bucket_contents_data (profile_vtypes prof))
          \<and> pointer_is_valid prof vm (b + bucket_contents_key (profile_vtypes prof)))"

text \<open>The test of the loop body,
  \<^verbatim>\<open>pdata.path.is_valid() and (0 <= pdata.flags <= 2)\<close> with
  \<^verbatim>\<open>pdata = bucket.data\<close>:\<close>

definition entry_test :: "profile \<Rightarrow> addr_space \<Rightarrow> nat \<Rightarrow> bool" where
  "entry_test prof vm b =
     (case dereference prof vm (b + bucket_contents_data (profile_vtypes prof)) of
        None \<Rightarrow> False
      | Some pdata \<Rightarrow>
          pointer_is_valid prof vm (pdata + pathdata_path (profile_vtypes prof))
          \<and> (case read_int vm (pdata + pathdata_flags (profile_vtypes prof)) of
               None \<Rightarrow> False | Some f \<Rightarrow> 0 \<le> f \<and> f \<le> 2))"

text \<open>\<^verbatim>\<open>bucket = bucket.next\<close>.\<close>

definition bucket_next :: "profile \<Rightarrow> addr_space \<Rightarrow> nat \<Rightarrow> nat option" where
  "bucket_next prof vm b =
     dereference prof vm (b + bucket_contents_next (profile_vtypes prof))"

text \<open>The \<^verbatim>\<open>while\<close> loop over one chain. The loop has no bound, so the result
  is an option: \<open>None\<close> when the loop does not return, and otherwise the
  addresses of the entries it yields, in order.\<close>

partial_function (option) walk_chain :: "profile \<Rightarrow> addr_space \<Rightarrow> nat option \<Rightarrow> nat list option" where
  "walk_chain prof vm bucket =
     (if loop_condition prof vm bucket then
        (case bucket of
           None \<Rightarrow> Some []
         | Some b \<Rightarrow>
             Option.bind (walk_chain prof vm (bucket_next prof vm b))
               (\<lambda>rest. Some ((if entry_test prof vm b then [b] else []) @ rest)))
      else Some [])"

text \<open>The array of 64 pointers at the value of \<^verbatim>\<open>htable.bucket_array\<close>: one
  element per slot, \<open>None\<close> for a slot whose address does not resolve.\<close>

definition bucket_array :: "profile \<Rightarrow> addr_space \<Rightarrow> nat \<Rightarrow> nat option list" where
  "bucket_array prof vm base =
     map (\<lambda>i. let slot = base + i * pointer_size prof
              in if is_valid_address vm slot then Some slot else None) [0..<64]"

text \<open>\<^verbatim>\<open>bucket_ptr.dereference_as("bucket_contents")\<close>.\<close>

definition dereference_as :: "profile \<Rightarrow> addr_space \<Rightarrow> nat option \<Rightarrow> nat option" where
  "dereference_as prof vm bucket_ptr =
     (case bucket_ptr of None \<Rightarrow> None | Some slot \<Rightarrow> dereference prof vm slot)"

text \<open>\<^verbatim>\<open>for bucket_ptr in bucket_array\<close>.\<close>

fun walk_buckets :: "profile \<Rightarrow> addr_space \<Rightarrow> nat option list \<Rightarrow> nat list option" where
  "walk_buckets prof vm [] = Some []"
| "walk_buckets prof vm (bucket_ptr # rest) =
     Option.bind (walk_chain prof vm (dereference_as prof vm bucket_ptr))
       (\<lambda>xs. Option.bind (walk_buckets prof vm rest) (\<lambda>ys. Some (xs @ ys)))"

text \<open>The part of the loop body below the prefilter, for the table
  materialised at \<open>off\<close>.\<close>

definition walk_table :: "profile \<Rightarrow> addr_space \<Rightarrow> nat \<Rightarrow> nat list option" where
  "walk_table prof vm off =
     (if bash_hash_table_is_valid prof vm off then
        (case read_pointer prof vm (off + bash_hash_table_bucket_array (profile_vtypes prof)) of
           None \<Rightarrow> Some []
         | Some base \<Rightarrow> walk_buckets prof vm (bucket_array prof vm base))
      else Some [])"

subsection \<open>The candidate scanner\<close>

text \<open>What a part of the generator does: it does not return (\<open>None\<close>), it
  raises (\<open>Inl\<close>), or it ends after yielding a list of results (\<open>Inr\<close>).\<close>

type_synonym 'a outcome = "(error + 'a list) option"

definition and_then :: "'a outcome \<Rightarrow> 'a outcome \<Rightarrow> 'a outcome" where
  "and_then r s =
     (case r of
        None \<Rightarrow> None
      | Some (Inl e) \<Rightarrow> Some (Inl e)
      | Some (Inr xs) \<Rightarrow>
          (case s of
             None \<Rightarrow> None
           | Some (Inl e) \<Rightarrow> Some (Inl e)
           | Some (Inr ys) \<Rightarrow> Some (Inr (xs @ ys))))"

text \<open>The body of \<^verbatim>\<open>for off in range(...)\<close> for one offset.\<close>

definition scan_offset :: "profile \<Rightarrow> addr_space \<Rightarrow> nat \<Rightarrow> nat outcome" where
  "scan_offset prof vm off =
     (case unpack_I (zread vm (off + nbuckets_offset prof) 4) of
        Inl e \<Rightarrow> Some (Inl e)
      | Inr test \<Rightarrow>
          if test \<noteq> 64 then Some (Inr [])
          else map_option Inr (walk_table prof vm off))"

fun scan_offsets :: "profile \<Rightarrow> addr_space \<Rightarrow> nat list \<Rightarrow> nat outcome" where
  "scan_offsets prof vm [] = Some (Inr [])"
| "scan_offsets prof vm (off # offs) =
     and_then (scan_offset prof vm off) (scan_offsets prof vm offs)"

text \<open>An offset is a candidate when the prefilter lets it through to the
  materialisation of the table.\<close>

definition candidate :: "profile \<Rightarrow> addr_space \<Rightarrow> nat \<Rightarrow> bool" where
  "candidate prof vm off =
     (case unpack_I (zread vm (off + nbuckets_offset prof) 4) of
        Inl e \<Rightarrow> False
      | Inr test \<Rightarrow> \<not> test \<noteq> 64)"

subsection \<open>Processes\<close>

record vm_area =
  vm_start :: nat
  vm_end :: nat

record task =
  pid :: int
  comm :: string
  process_address_space :: "addr_space option"
  proc_maps :: "vm_area list"
  start_brk :: nat
  brk :: nat

record config =
  SCAN_ALL :: bool

text \<open>\<^verbatim>\<open>range(heap_vma.vm_start, heap_vma.vm_end)\<close>.\<close>

definition heap_range :: "vm_area \<Rightarrow> nat list" where
  "heap_range heap_vma = [vm_start heap_vma ..< vm_end heap_vma]"

text \<open>The search for the heap: the first area that holds both break
  addresses; \<open>None\<close> is the initial \<^verbatim>\<open>heap_vma = 0\<close>.\<close>

fun find_heap_vma :: "task \<Rightarrow> vm_area list \<Rightarrow> vm_area option" where
  "find_heap_vma t [] = None"
| "find_heap_vma t (vma # vmas) =
     (if vm_start vma \<le> start_brk t \<and> vm_end vma \<ge> brk t then Some vma
      else find_heap_vma t vmas)"

text \<open>The three \<^verbatim>\<open>continue\<close> tests at the head of the loop over the tasks:
  the address space and the heap area that are scanned, or \<open>None\<close> when the
  task is passed over.\<close>

definition scanned_heap :: "config \<Rightarrow> task \<Rightarrow> (addr_space \<times> vm_area) option" where
  "scanned_heap cfg t =
     (case process_address_space t of
        None \<Rightarrow> None
      | Some proc_as \<Rightarrow>
          if \<not> (SCAN_ALL cfg \<or> comm t = ''bash'') then None
          else (case find_heap_vma t (proc_maps t) of
                  None \<Rightarrow> None
                | Some heap_vma \<Rightarrow> Some (proc_as, heap_vma)))"

text \<open>A result \<^verbatim>\<open>(task, bucket)\<close>: the bucket object is its address space and
  its address.\<close>

type_synonym result = "task \<times> addr_space \<times> nat"

definition tag_results :: "task \<Rightarrow> addr_space \<Rightarrow> nat outcome \<Rightarrow> result outcome" where
  "tag_results t vm r = map_option (map_sum id (map (\<lambda>b. (t, vm, b)))) r"

definition scan_task :: "config \<Rightarrow> profile \<Rightarrow> task \<Rightarrow> result outcome" where
  "scan_task cfg prof t =
     (case scanned_heap cfg t of
        None \<Rightarrow> Some (Inr [])
      | Some (proc_as, heap_vma) \<Rightarrow>
          tag_results t proc_as (scan_offsets prof proc_as (heap_range heap_vma)))"

text \<open>\<^verbatim>\<open>linux_bash_hash.calculate\<close> on the tasks of the process list.\<close>

fun calculate :: "config \<Rightarrow> profile \<Rightarrow> task list \<Rightarrow> result outcome" where
  "calculate cfg prof [] = Some (Inr [])"
| "calculate cfg prof (t # tasks) =
     and_then (scan_task cfg prof t) (calculate cfg prof tasks)"

subsection \<open>The rows of the output\<close>

text \<open>Modelled from the spec: the string class of the framework is not part of
  the sources. A string is read up to its terminating zero byte, the end of
  the mapped memory or its fixed length, whichever comes first.\<close>

fun read_string :: "addr_space \<Rightarrow> nat \<Rightarrow> nat \<Rightarrow> byte list" where
  "read_string vm a 0 = []"
| "read_string vm a (Suc n) =
     (case vm a of
        None \<Rightarrow> []
      | Some b \<Rightarrow> if b = 0 then [] else b # read_string vm (Suc a) n)"

text \<open>The string behind the pointer stored at \<open>a\<close>, empty when the pointer
  cannot be dereferenced.\<close>

definition string_at :: "profile \<Rightarrow> addr_space \<Rightarrow> nat \<Rightarrow> byte list" where
  "string_at prof vm a =
     (case dereference prof vm a of None \<Rightarrow> [] | Some s \<Rightarrow> read_string vm s 1024)"

text \<open>One row of \<^verbatim>\<open>render_text\<close>: pid, name, hits, command, full path.\<close>

definition render_row :: "profile \<Rightarrow> result \<Rightarrow> int \<times> string \<times> int option \<times> byte list \<times> byte list" where
  "render_row prof r =
     (case r of (t, vm, b) \<Rightarrow>
        (pid t, comm t,
         read_int vm (b + bucket_contents_times_found (profile_vtypes prof)),
         string_at prof vm (b + bucket_contents_key (profile_vtypes prof)),
         (case dereference prof vm (b + bucket_contents_data (profile_vtypes prof)) of
            None \<Rightarrow> []
          | Some pdata \<Rightarrow> string_at prof vm (pdata + pathdata_path (profile_vtypes prof)))))"

text \<open>The rendered output of a run: \<^verbatim>\<open>render_text\<close> applied to the results of
  \<^verbatim>\<open>calculate\<close>.\<close>

definition render_text :: "config \<Rightarrow> profile \<Rightarrow> task list
    \<Rightarrow> (int \<times> string \<times> int option \<times> byte list \<times> byte list) outcome" where
  "render_text cfg prof tasks =
     map_option (map_sum id (map (render_row prof))) (calculate cfg prof tasks)"

subsection \<open>Notions used in the statements\<close>

text \<open>The candidate offsets of a heap area, and those among them that the
  validator accepts.\<close>

definition candidates :: "profile \<Rightarrow> addr_space \<Rightarrow> vm_area \<Rightarrow> nat list" where
  "candidates prof vm heap_vma = filter (candidate prof vm) (heap_range heap_vma)"

definition validated :: "profile \<Rightarrow> addr_space \<Rightarrow> vm_area \<Rightarrow> nat list" where
  "validated prof vm heap_vma =
     filter (bash_hash_table_is_valid prof vm) (candidates prof vm heap_vma)"

text \<open>The \<open>k\<close>-th bucket of a chain: the value of the loop variable after \<open>k\<close>
  assignments \<^verbatim>\<open>bucket = bucket.next\<close>.\<close>

fun chain_node :: "profile \<Rightarrow> addr_space \<Rightarrow> nat option \<Rightarrow> nat \<Rightarrow> nat option" where
  "chain_node prof vm bucket 0 = bucket"
| "chain_node prof vm bucket (Suc k) =
     (case bucket of
        None \<Rightarrow> None
      | Some b \<Rightarrow> chain_node prof vm (bucket_next prof vm b) k)"

text \<open>What the loop body yields for one bucket.\<close>

definition yield_of :: "profile \<Rightarrow> addr_space \<Rightarrow> nat option \<Rightarrow> nat list" where
  "yield_of prof vm bucket =
     (case bucket of None \<Rightarrow> [] | Some b \<Rightarrow> if entry_test prof vm b then [b] else [])"

subsection \<open>Hand-constructed memory images\<close>

text \<open>The little-endian bytes of a value, and a heap that is zero except for
  the bytes placed in it.\<close>

fun le_bytes :: "nat \<Rightarrow> nat \<Rightarrow> byte list" where
  "le_bytes 0 v = []"
| "le_bytes (Suc n) v = of_nat (v mod 256) # le_bytes n (v div 256)"

fun place :: "nat \<Rightarrow> byte list \<Rightarrow> (nat \<times> byte) list" where
  "place a [] = []"
| "place a (b # bs) = (if b = 0 then [] else [(a, b)]) @ place (Suc a) bs"

definition heap_image :: "nat \<Rightarrow> nat \<Rightarrow> (nat \<times> byte) list \<Rightarrow> addr_space" where
  "heap_image lo hi bytes a =
     (if lo \<le> a \<and> a < hi
      then Some (case map_of bytes a of None \<Rightarrow> 0 | Some b \<Rightarrow> b)
      else None)"

text \<open>
  A heap from \<open>0x100\<close> to \<open>0x260\<close> under the 32-bit layout. The table is at
  \<open>0x100\<close> (bucket array \<open>0x110\<close>, 64 buckets, 2 entries); the sixth slot of the
  array, at \<open>0x124\<close>, points to the entry at \<open>0x210\<close> (next \<open>0x224\<close>, key
  \<open>0x248\<close>, data \<open>0x238\<close>, found 3 times), whose successor at \<open>0x224\<close> ends
  the chain (key \<open>0x24b\<close>, data \<open>0x240\<close>, found once). The path data at
  \<open>0x238\<close> has the path \<open>0x24e\<close> and the flags 0, the one at \<open>0x240\<close> the path
  \<open>0x256\<close> and the flags 2. The strings are \<open>ls\<close>, \<open>cp\<close>, \<open>/bin/ls\<close> and
  \<open>/bin/cp\<close>.
\<close>

definition image32 :: addr_space where
  "image32 = heap_image 0x100 0x260
    (place 0x100 (le_bytes 4 0x110 @ le_bytes 4 64 @ le_bytes 4 2) @
     place 0x124 (le_bytes 4 0x210) @
     place 0x210 (le_bytes 4 0x224 @ le_bytes 4 0x248 @ le_bytes 4 0x238 @ le_bytes 4 0 @ le_bytes 4 3) @
     place 0x224 (le_bytes 4 0 @ le_bytes 4 0x24b @ le_bytes 4 0x240 @ le_bytes 4 0 @ le_bytes 4 1) @
     place 0x238 (le_bytes 4 0x24e @ le_bytes 4 0) @
     place 0x240 (le_bytes 4 0x256 @ le_bytes 4 2) @
     place 0x248 [0x6c, 0x73, 0] @
     place 0x24b [0x63, 0x70, 0] @
     place 0x24e [0x2f, 0x62, 0x69, 0x6e, 0x2f, 0x6c, 0x73, 0] @
     place 0x256 [0x2f, 0x62, 0x69, 0x6e, 0x2f, 0x63, 0x70, 0])"

definition image32_heap :: vm_area where
  "image32_heap = \<lparr> vm_start = 0x100, vm_end = 0x260 \<rparr>"

definition image32_task :: task where
  "image32_task = \<lparr> pid = 1234, comm = ''bash'', process_address_space = Some image32,
     proc_maps = [image32_heap], start_brk = 0x100, brk = 0x260 \<rparr>"

text \<open>
  A heap from \<open>0x100\<close> to \<open>0x130\<close> under the 32-bit layout with one entry, at
  \<open>0x100\<close>, whose \<open>next\<close> points to the entry itself (key \<open>0x120\<close>, data
  \<open>0x118\<close>, found once; the path data has the path \<open>0x120\<close> and the flags 0).
\<close>

definition cyclic32 :: addr_space where
  "cyclic32 = heap_image 0x100 0x130
    (place 0x100 (le_bytes 4 0x100 @ le_bytes 4 0x120 @ le_bytes 4 0x118 @ le_bytes 4 0 @ le_bytes 4 1) @
     place 0x118 (le_bytes 4 0x120 @ le_bytes 4 0) @
     place 0x120 [0x6c, 0x73, 0])"

subsection \<open>Structural equivalence of buffers\<close>

text \<open>
  The logical content of an entry: what its members hold, whatever their
  offsets and widths. The strings are those of the rendered row.
\<close>

record entry_view =
  ev_times_found :: "int option"
  ev_key_valid :: bool
  ev_key :: "byte list"
  ev_data_valid :: bool
  ev_path_valid :: bool
  ev_flags :: "int option"
  ev_path :: "byte list"

definition entry_view :: "profile \<Rightarrow> addr_space \<Rightarrow> nat \<Rightarrow> entry_view" where
  "entry_view prof vm b =
     (let data = dereference prof vm (b + bucket_contents_data (profile_vtypes prof)) in
      \<lparr> ev_times_found = read_int vm (b + bucket_contents_times_found (profile_vtypes prof)),
        ev_key_valid = pointer_is_valid prof vm (b + bucket_contents_key (profile_vtypes prof)),
        ev_key = string_at prof vm (b + bucket_contents_key (profile_vtypes prof)),
        ev_data_valid = pointer_is_valid prof vm (b + bucket_contents_data (profile_vtypes prof)),
        ev_path_valid =
          (case data of
             None \<Rightarrow> False
           | Some pdata \<Rightarrow> pointer_is_valid prof vm (pdata + pathdata_path (profile_vtypes prof))),
        ev_flags =
          (case data of
             None \<Rightarrow> None
           | Some pdata \<Rightarrow> read_int vm (pdata + pathdata_flags (profile_vtypes prof))),
        ev_path =
          (case data of
             None \<Rightarrow> []
           | Some pdata \<Rightarrow> string_at prof vm (pdata + pathdata_path (profile_vtypes prof))) \<rparr>)"

text \<open>
  Two buffers, each read under its own profile, have the same entries along a
  correspondence \<open>R\<close> of entry addresses when corresponding entries have the
  same logical content and their \<open>next\<close> pointers either both fail to
  dereference or lead to corresponding entries.
\<close>

definition same_entries ::
    "profile \<Rightarrow> addr_space \<Rightarrow> profile \<Rightarrow> addr_space \<Rightarrow> (nat \<Rightarrow> nat \<Rightarrow> bool) \<Rightarrow> bool" where
  "same_entries p1 vm1 p2 vm2 R =
     (\<forall>a b. R a b \<longrightarrow>
        entry_view p1 vm1 a = entry_view p2 vm2 b
        \<and> rel_option R (bucket_next p1 vm1 a) (bucket_next p2 vm2 b))"

text \<open>The heads of the 64 chains of the table at \<open>off\<close>.\<close>

definition bucket_heads :: "profile \<Rightarrow> addr_space \<Rightarrow> nat \<Rightarrow> nat option list" where
  "bucket_heads prof vm off =
     (case read_pointer prof vm (off + bash_hash_table_bucket_array (profile_vtypes prof)) of
        None \<Rightarrow> []
      | Some base \<Rightarrow> map (dereference_as prof vm) (bucket_array prof vm base))"

text \<open>
  Two heap areas are structurally equivalent when they have the same entries
  and hold the same valid tables in the same order: the heads of the chains of
  corresponding tables either both fail to dereference or are corresponding
  entries.
\<close>

definition equivalent_buffers ::
    "profile \<Rightarrow> addr_space \<Rightarrow> vm_area \<Rightarrow> profile \<Rightarrow> addr_space \<Rightarrow> vm_area
      \<Rightarrow> (nat \<Rightarrow> nat \<Rightarrow> bool) \<Rightarrow> bool" where
  "equivalent_buffers p1 vm1 heap1 p2 vm2 heap2 R =
     (same_entries p1 vm1 p2 vm2 R
      \<and> list_all2
          (\<lambda>off1 off2. list_all2 (rel_option R) (bucket_heads p1 vm1 off1) (bucket_heads p2 vm2 off2))
          (validated p1 vm1 heap1) (validated p2 vm2 heap2))"

text \<open>Outcomes that agree up to a correspondence of their results.\<close>

definition rel_outcome :: "('a \<Rightarrow> 'b \<Rightarrow> bool) \<Rightarrow> 'a outcome \<Rightarrow> 'b outcome \<Rightarrow> bool" where
  "rel_outcome R r s =
     (case (r, s) of
        (None, None) \<Rightarrow> True
      | (Some (Inl e), Some (Inl e')) \<Rightarrow> e = e'
      | (Some (Inr xs), Some (Inr ys)) \<Rightarrow> list_all2 R xs ys
      | _ \<Rightarrow> False)"

text \<open>
  The same structure under the 64-bit layout, in a heap from \<open>0x100\<close> to
  \<open>0x388\<close>: the table at \<open>0x100\<close> (bucket array \<open>0x110\<close>, 64 buckets, 2
  entries), the sixth slot at \<open>0x138\<close> pointing to the entry at \<open>0x310\<close> (next
  \<open>0x330\<close>, key \<open>0x370\<close>, data \<open>0x350\<close>, found 3 times), its successor at
  \<open>0x330\<close> (key \<open>0x373\<close>, data \<open>0x360\<close>, found once), the path data at
  \<open>0x350\<close> (path \<open>0x376\<close>, flags 0) and \<open>0x360\<close> (path \<open>0x37e\<close>, flags 2), and
  the same four strings.
\<close>

definition image64 :: addr_space where
  "image64 = heap_image 0x100 0x388
    (place 0x100 (le_bytes 8 0x110 @ le_bytes 4 64 @ le_bytes 4 2) @
     place 0x138 (le_bytes 8 0x310) @
     place 0x310 (le_bytes 8 0x330 @ le_bytes 8 0x370 @ le_bytes 8 0x350 @ le_bytes 4 0 @ le_bytes 4 3) @
     place 0x330 (le_bytes 8 0 @ le_bytes 8 0x373 @ le_bytes 8 0x360 @ le_bytes 4 0 @ le_bytes 4 1) @
     place 0x350 (le_bytes 8 0x376 @ le_bytes 4 0) @
     place 0x360 (le_bytes 8 0x37e @ le_bytes 4 2) @
     place 0x370 [0x6c, 0x73, 0] @
     place 0x373 [0x63, 0x70, 0] @
     place 0x376 [0x2f, 0x62, 0x69, 0x6e, 0x2f, 0x6c, 0x73, 0] @
     place 0x37e [0x2f, 0x62, 0x69, 0x6e, 0x2f, 0x63, 0x70, 0])"

definition image64_heap :: vm_area where
  "image64_heap = \<lparr> vm_start = 0x100, vm_end = 0x388 \<rparr>"

definition image64_task :: task where
  "image64_task = \<lparr> pid = 1234, comm = ''bash'', process_address_space = Some image64,
     proc_maps = [image64_heap], start_brk = 0x100, brk = 0x388 \<rparr>"

text \<open>The entries of \<open>image32\<close> and those of \<open>image64\<close> that correspond.\<close>

definition image_entries :: "nat \<Rightarrow> nat \<Rightarrow> bool" where
  "image_entries a b = (a = 0x210 \<and> b = 0x310 \<or> a = 0x224 \<and> b = 0x330)"

section \<open>Properties\<close>

subsection \<open>Reading memory\<close>


lemma four_eq: "(4::nat) = Suc (Suc (Suc (Suc 0)))" by simp

lemma length_read: "read vm a n = Some bs \<Longrightarrow> length bs = n"
  by (induction n arbitrary: a bs) (auto split: option.splits)

lemma length_zread: "length (zread vm a n) = n"
  by (auto simp: zread_def length_read split: option.splits)

lemma unpack_I_zread: "unpack_I (zread vm a 4) = Inr (le_nat (zread vm a 4))"
  by (simp add: unpack_I_def length_zread)

lemma candidate_iff: "candidate prof vm off \<longleftrightarrow> le_nat (zread vm (off + nbuckets_offset prof) 4) = 64"
  by (simp add: candidate_def unpack_I_zread)

lemma scan_offset_candidate:
  "scan_offset prof vm off =
     (if candidate prof vm off then map_option Inr (walk_table prof vm off) else Some (Inr []))"
  by (simp add: scan_offset_def candidate_def unpack_I_zread)

lemma le_nat_replicate_0: "le_nat (replicate n 0) = 0"
  by (induction n) simp_all

lemma read_4: "read vm a 4 = (case vm a of None \<Rightarrow> None | Some b0 \<Rightarrow>
   (case vm (a+1) of None \<Rightarrow> None | Some b1 \<Rightarrow>
   (case vm (a+2) of None \<Rightarrow> None | Some b2 \<Rightarrow>
   (case vm (a+3) of None \<Rightarrow> None | Some b3 \<Rightarrow> Some [b0,b1,b2,b3]))))"
proof -
  have "read vm a (Suc (Suc (Suc (Suc 0)))) = (case vm a of None \<Rightarrow> None | Some b0 \<Rightarrow>
   (case vm (a+1) of None \<Rightarrow> None | Some b1 \<Rightarrow>
   (case vm (a+2) of None \<Rightarrow> None | Some b2 \<Rightarrow>
   (case vm (a+3) of None \<Rightarrow> None | Some b3 \<Rightarrow> Some [b0,b1,b2,b3]))))"
    by (simp add: numeral_3_eq_3 split: option.splits)
  then show ?thesis by (simp only: four_eq)
qed

lemma unat_byte_lt: "unat (b::byte) < 256"
  using unsigned_less [of b] by simp

lemma read_4_Some:
  "read vm a 4 = Some bs \<Longrightarrow> \<exists>b0 b1 b2 b3. vm a = Some b0 \<and> bs = [b0, b1, b2, b3]"
  by (auto simp: read_4 split: option.splits)

lemma byte_64: "unat (b::byte) = 64 \<Longrightarrow> b = 0x40"
proof -
  assume "unat b = 64"
  then have "of_nat (unat b) = (of_nat 64 :: byte)" by (simp only:)
  then show ?thesis by simp
qed

lemma le_nat_4_eq_64:
  assumes "le_nat [b0, b1, b2, b3] = 64"
  shows "b0 = 0x40"
proof -
  define k where "k = unat b1 + 256 * (unat b2 + 256 * unat b3)"
  from assms have e: "unat b0 + 256 * k = 64"
    by (simp add: k_def)
  have "k = 0"
  proof (cases k)
    case 0
    then show ?thesis .
  next
    case (Suc m)
    with e show ?thesis by simp
  qed
  with e have "unat b0 = 64" by simp
  then show ?thesis by (rule byte_64)
qed

lemma candidate_first_byte:
  assumes "candidate prof vm off"
  shows "vm (off + nbuckets_offset prof) = Some 0x40"
proof -
  let ?a = "off + nbuckets_offset prof"
  from assms have v: "le_nat (zread vm ?a 4) = 64" by (simp add: candidate_iff)
  show ?thesis
  proof (cases "read vm ?a 4")
    case None
    then show ?thesis using v by (simp add: zread_def le_nat_replicate_0)
  next
    case (Some bs)
    then obtain b0 b1 b2 b3 where b: "vm ?a = Some b0" "bs = [b0,b1,b2,b3]"
      using read_4_Some by blast
    from v Some have "le_nat bs = 64" by (simp add: zread_def)
    with b have "b0 = 0x40" using le_nat_4_eq_64 by blast
    with b show ?thesis by simp
  qed
qed

lemma and_then_Nil [simp]: "and_then (Some (Inr [])) s = s"
  by (auto simp: and_then_def split: option.splits sum.splits)

lemma and_then_Nil2 [simp]: "and_then r (Some (Inr [])) = r"
  by (auto simp: and_then_def split: option.splits sum.splits)

lemma and_then_assoc: "and_then (and_then r s) t = and_then r (and_then s t)"
  by (auto simp: and_then_def split: option.splits sum.splits)

lemma scan_offsets_append:
  "scan_offsets prof vm (xs @ ys) = and_then (scan_offsets prof vm xs) (scan_offsets prof vm ys)"
  by (induction xs) (simp_all add: and_then_assoc)

lemma scan_offsets_filter:
  "scan_offsets prof vm offs = scan_offsets prof vm (filter (candidate prof vm) offs)"
  by (induction offs) (simp_all add: scan_offset_candidate)

lemma and_then_not_error:
  "r \<noteq> Some (Inl e) \<Longrightarrow> s \<noteq> Some (Inl e) \<Longrightarrow> and_then r s \<noteq> Some (Inl e)"
  by (auto simp: and_then_def split: option.splits sum.splits)

lemma scan_offset_not_error: "scan_offset prof vm off \<noteq> Some (Inl e)"
  by (auto simp: scan_offset_candidate)

lemma scan_offsets_not_error: "scan_offsets prof vm offs \<noteq> Some (Inl e)"
  by (induction offs) (simp_all add: and_then_not_error scan_offset_not_error)

lemma filter_eq_upt: "filter (\<lambda>x. x = a) [lo..<hi] = (if lo \<le> a \<and> a < hi then [a] else [])"
  by (induction hi) auto



lemma le_bytes_4: "le_bytes 4 v = [of_nat (v mod 256), of_nat (v div 256 mod 256), of_nat (v div 256 div 256 mod 256), of_nat (v div 256 div 256 div 256 mod 256)]"
proof -
  have "le_bytes (Suc (Suc (Suc (Suc 0)))) v = [of_nat (v mod 256), of_nat (v div 256 mod 256), of_nat (v div 256 div 256 mod 256), of_nat (v div 256 div 256 div 256 mod 256)]"
    by simp
  then show ?thesis by (simp only: four_eq)
qed

lemma image32_explicit: "image32 = heap_image 0x100 0x260
  [(0x100, 0x10), (0x101, 0x1), (0x104, 0x40), (0x108, 0x2), (0x124, 0x10), (0x125, 0x2), (0x210, 0x24), (0x211, 0x2), (0x214, 0x48), (0x215, 0x2), (0x218, 0x38), (0x219, 0x2), (0x220, 0x3), (0x228, 0x4b), (0x229, 0x2), (0x22c, 0x40), (0x22d, 0x2), (0x234, 0x1), (0x238, 0x4e), (0x239, 0x2), (0x240, 0x56), (0x241, 0x2), (0x244, 0x2), (0x248, 0x6c), (0x249, 0x73), (0x24b, 0x63), (0x24c, 0x70), (0x24e, 0x2f), (0x24f, 0x62), (0x250, 0x69), (0x251, 0x6e), (0x252, 0x2f), (0x253, 0x6c), (0x254, 0x73), (0x256, 0x2f), (0x257, 0x62), (0x258, 0x69), (0x259, 0x6e), (0x25a, 0x2f), (0x25b, 0x63), (0x25c, 0x70)]"
  by (simp add: image32_def le_bytes_4)

lemma image32_at: "image32 a = (if 0x100 \<le> a \<and> a < 0x260 then Some (case map_of
  [(0x100, 0x10), (0x101, 0x1), (0x104, 0x40), (0x108, 0x2), (0x124, 0x10), (0x125, 0x2), (0x210, 0x24), (0x211, 0x2), (0x214, 0x48), (0x215, 0x2), (0x218, 0x38), (0x219, 0x2), (0x220, 0x3), (0x228, 0x4b), (0x229, 0x2), (0x22c, 0x40), (0x22d, 0x2), (0x234, 0x1), (0x238, 0x4e), (0x239, 0x2), (0x240, 0x56), (0x241, 0x2), (0x244, 0x2), (0x248, 0x6c), (0x249, 0x73), (0x24b, 0x63), (0x24c, 0x70), (0x24e, 0x2f), (0x24f, 0x62), (0x250, 0x69), (0x251, 0x6e), (0x252, 0x2f), (0x253, 0x6c), (0x254, 0x73), (0x256, 0x2f), (0x257, 0x62), (0x258, 0x69), (0x259, 0x6e), (0x25a, 0x2f), (0x25b, 0x63), (0x25c, 0x70)] a of None \<Rightarrow> 0 | Some b \<Rightarrow> b) else None)"
  by (simp only: image32_explicit heap_image_def)

lemma image32_valid: "is_valid_address image32 a \<longleftrightarrow> 0x100 \<le> a \<and> a < 0x260"
  by (simp add: is_valid_address_def image32_explicit heap_image_def)

lemma image32_zero:
  "0x110 \<le> a \<Longrightarrow> a < 0x210 \<Longrightarrow> a < 0x124 \<or> 0x126 \<le> a \<Longrightarrow> image32 a = Some 0"
  by (auto simp add: image32_at)

lemma image32_0x40: "image32 a = Some 0x40 \<Longrightarrow> a = 0x104 \<or> a = 0x22c"
  by (simp add: image32_at split: if_splits)

lemma narrow_simps:
  "pointer_size narrow_profile = 4"
  "profile_vtypes narrow_profile = bash_hash_vtypes_32"
  "nbuckets_offset narrow_profile = 4"
  by (simp_all add: narrow_profile_def modification_def nbuckets_offset_def bash_hash_vtypes_32_def)

lemma zread_4: "zread vm a 4 = (case read vm a 4 of None \<Rightarrow> [0,0,0,0] | Some bs \<Rightarrow> bs)"
proof -
  have "replicate (Suc (Suc (Suc (Suc 0)))) (0::byte) = [0,0,0,0]" by simp
  then have "replicate 4 (0::byte) = [0,0,0,0]" by (simp only: four_eq)
  then show ?thesis by (simp only: zread_def)
qed

lemma c100: "candidate narrow_profile image32 0x100"
  by (simp add: candidate_iff narrow_simps zread_4 read_4 image32_at)

lemma c228: "\<not> candidate narrow_profile image32 0x228"
  by (simp add: candidate_iff narrow_simps zread_4 read_4 image32_at)

lemma cand_iff: "candidate narrow_profile image32 off \<longleftrightarrow> off = 0x100"
proof
  assume c: "candidate narrow_profile image32 off"
  then have "image32 (off + 4) = Some 0x40"
    using candidate_first_byte [of narrow_profile image32 off] by (simp add: narrow_simps)
  then have "off + 4 = 0x104 \<or> off + 4 = 0x22c" by (rule image32_0x40)
  then have "off = 0x100 \<or> off = 0x228" by arith
  with c c228 show "off = 0x100" by blast
next
  assume "off = 0x100" then show "candidate narrow_profile image32 off" using c100 by simp
qed




lemma walk_chain_stop:
  "\<not> loop_condition prof vm bucket \<Longrightarrow> walk_chain prof vm bucket = Some []"
  by (subst walk_chain.simps) simp

lemma walk_chain_step:
  "loop_condition prof vm (Some b) \<Longrightarrow>
   walk_chain prof vm (Some b) =
     Option.bind (walk_chain prof vm (bucket_next prof vm b))
       (\<lambda>rest. Some ((if entry_test prof vm b then [b] else []) @ rest))"
  by (subst walk_chain.simps) simp

lemma loop_condition_None [simp]: "\<not> loop_condition prof vm None"
  by (simp add: loop_condition_def)

lemmas eval32 = loop_condition_def read_int_def read_4 pointer_is_valid_def read_pointer_def
  narrow_simps bash_hash_vtypes_32_def image32_valid signed32_def image32_at
  dereference_def entry_test_def bucket_next_def dereference_as_def

lemma lc1: "loop_condition narrow_profile image32 (Some 0x210)"
  by (simp add: eval32)
lemma et1: "entry_test narrow_profile image32 0x210"
  by (simp add: eval32)
lemma nx1: "bucket_next narrow_profile image32 0x210 = Some 0x224"
  by (simp add: eval32)
lemma lc2: "loop_condition narrow_profile image32 (Some 0x224)"
  by (simp add: eval32)
lemma et2: "entry_test narrow_profile image32 0x224"
  by (simp add: eval32)
lemma nx2: "bucket_next narrow_profile image32 0x224 = None"
  by (simp add: eval32)

lemma walk_210: "walk_chain narrow_profile image32 (Some 0x210) = Some [0x210, 0x224]"
  by (simp add: walk_chain_step lc1 lc2 et1 et2 nx1 nx2 walk_chain_stop)

lemma valid_100: "bash_hash_table_is_valid narrow_profile image32 0x100"
  by (simp add: bash_hash_table_is_valid_def CType_is_valid_def eval32)

lemma slot_empty:
  assumes "0x110 \<le> a" "a + 4 \<le> 0x210" "a + 4 \<le> 0x124 \<or> 0x128 \<le> a"
  shows "dereference narrow_profile image32 a = None"
proof -
  from assms have "image32 a = Some 0" "image32 (a + 1) = Some 0"
    "image32 (a + 2) = Some 0" "image32 (a + 3) = Some 0"
    by (auto intro!: image32_zero)
  then have "read image32 a 4 = Some [0, 0, 0, 0]" by (simp add: read_4)
  then show ?thesis
    by (simp add: dereference_def read_pointer_def narrow_simps image32_valid)
qed

lemma slot_124: "dereference narrow_profile image32 0x124 = Some 0x210"
  by (simp add: eval32)

lemma buckets_110:
  "walk_buckets narrow_profile image32 (bucket_array narrow_profile image32 0x110) = Some [0x210, 0x224]"
  by (simp add: bucket_array_def upt_rec narrow_simps image32_valid dereference_as_def
      slot_empty slot_124 walk_chain_stop walk_210)

lemma ptr_100: "read_pointer narrow_profile image32 0x100 = Some 0x110"
  by (simp add: eval32)

lemma table_100: "walk_table narrow_profile image32 0x100 = Some [0x210, 0x224]"
  by (simp add: walk_table_def valid_100 buckets_110 ptr_100 narrow_simps bash_hash_vtypes_32_def)


subsection \<open>The scanner, the validator and the round trip\<close>


lemma le_nat_bound: "le_nat bs < 256 ^ length bs"
proof (induction bs)
  case Nil
  then show ?case by simp
next
  case (Cons b bs)
  have "unat b + 256 * le_nat bs < 256 + 256 * le_nat bs"
    using unat_byte_lt [of b] by simp
  also have "\<dots> = 256 * (1 + le_nat bs)" by simp
  also have "\<dots> \<le> 256 * 256 ^ length bs"
    using Cons.IH by (intro mult_le_mono2) simp
  finally show ?case by simp
qed

lemma signed32_eq_64:
  assumes "signed32 n = 64" "n < 2 ^ 32"
  shows "n = 64"
  using assms by (simp add: signed32_def split: if_splits)

lemma read_int_64:
  assumes "read_int vm a = Some 64"
  shows "le_nat (zread vm a 4) = 64"
proof -
  from assms obtain bs where bs: "read vm a 4 = Some bs" "signed32 (le_nat bs) = 64"
    by (auto simp: read_int_def)
  then have "length bs = 4" by (simp add: length_read)
  then have "le_nat bs < 2 ^ 32" using le_nat_bound [of bs] by simp
  with bs have "le_nat bs = 64" by (simp add: signed32_eq_64)
  with bs show ?thesis by (simp add: zread_def)
qed

lemma is_valid_iff:
  "bash_hash_table_is_valid prof vm off \<longleftrightarrow>
     CType_is_valid vm off
     \<and> pointer_is_valid prof vm (off + bash_hash_table_bucket_array (profile_vtypes prof))
     \<and> read_int vm (off + bash_hash_table_nbuckets (profile_vtypes prof)) = Some 64
     \<and> (\<exists>n. read_int vm (off + bash_hash_table_nentries (profile_vtypes prof)) = Some n \<and> n > 1)"
  by (auto simp: bash_hash_table_is_valid_def split: option.splits)

lemma is_valid_candidate:
  assumes "bash_hash_table_is_valid prof vm off"
  shows "candidate prof vm off"
proof -
  from assms have "read_int vm (off + bash_hash_table_nbuckets (profile_vtypes prof)) = Some 64"
    by (simp add: is_valid_iff)
  then show ?thesis
    by (simp add: candidate_iff nbuckets_offset_def read_int_64)
qed

lemma walk_table_invalid:
  "\<not> bash_hash_table_is_valid prof vm off \<Longrightarrow> walk_table prof vm off = Some []"
  by (simp add: walk_table_def)

lemma image32_heap_simps: "vm_start image32_heap = 0x100" "vm_end image32_heap = 0x260"
  by (simp_all add: image32_heap_def)

lemma candidates_image32: "candidates narrow_profile image32 image32_heap = [0x100]"
proof -
  have "candidate narrow_profile image32 = (\<lambda>off. off = 0x100)"
    by (rule ext) (rule cand_iff)
  then show ?thesis
    by (simp add: candidates_def heap_range_def image32_heap_simps filter_eq_upt)
qed

lemma nentries_100:
  "le_nat (zread image32 (0x100 + bash_hash_table_nentries (profile_vtypes narrow_profile)) 4) = 2"
  by (simp add: narrow_simps bash_hash_vtypes_32_def zread_4 read_4 image32_at)

text \<open>
  Claim C10. The scanned offsets of a heap area are the half-open range from
  \<open>vm_start\<close> to \<open>vm_end\<close>: every offset from \<open>vm_start\<close> up to, but not
  including, \<open>vm_end\<close> is put to the prefilter, and \<open>vm_end\<close> itself is neither
  tested nor ever a candidate.
\<close>
theorem heap_range_half_open:
  "(off \<in> set (heap_range heap_vma) \<longleftrightarrow> vm_start heap_vma \<le> off \<and> off < vm_end heap_vma)
   \<and> vm_end heap_vma \<notin> set (heap_range heap_vma)
   \<and> vm_end heap_vma \<notin> set (candidates prof vm heap_vma)"
  by (simp add: heap_range_def candidates_def)

text \<open>
  Claim C1, amended. Scanning byte by byte, the scanner accepts an offset of
  the heap range as a candidate if and only if the 4 bytes read at the offset
  plus the offset of the member \<open>nbuckets\<close> (the bucket count, not the entry
  count \<open>nentries\<close>), taken as a little-endian unsigned 32-bit integer, are
  exactly 64.
\<close>
theorem candidate_scanner_prefilter:
  "off \<in> set (candidates prof vm heap_vma) \<longleftrightarrow>
     vm_start heap_vma \<le> off \<and> off < vm_end heap_vma \<and>
     le_nat (zread vm (off + bash_hash_table_nbuckets (profile_vtypes prof)) 4) = 64"
  by (auto simp: candidates_def heap_range_def candidate_iff nbuckets_offset_def)

theorem candidate_scanner_entry_count_counterexample:
  "\<not> ((0x100::nat) \<in> set (candidates narrow_profile image32 image32_heap) \<longleftrightarrow>
      vm_start image32_heap \<le> 0x100 \<and> 0x100 < vm_end image32_heap \<and>
      le_nat (zread image32 (0x100 + bash_hash_table_nentries (profile_vtypes narrow_profile)) 4) = 64)"
  by (simp add: candidates_image32 nentries_100)

text \<open>
  Claim C5, amended. Prefilter soundness: if the 4 bytes at the position of
  the member \<open>nbuckets\<close> (the bucket count) of an offset are not 64 as a
  little-endian unsigned 32-bit integer, the validator does not accept that
  offset, the offset is not among the validated ones of any heap area, and
  its scan yields nothing.
\<close>
theorem prefilter_soundness:
  assumes "le_nat (zread vm (off + bash_hash_table_nbuckets (profile_vtypes prof)) 4) \<noteq> 64"
  shows "\<not> bash_hash_table_is_valid prof vm off
    \<and> off \<notin> set (validated prof vm heap_vma)
    \<and> scan_offset prof vm off = Some (Inr [])"
proof -
  from assms have "\<not> candidate prof vm off"
    by (simp add: candidate_iff nbuckets_offset_def)
  then show ?thesis
    using is_valid_candidate [of prof vm off]
    by (auto simp: validated_def candidates_def scan_offset_candidate)
qed

lemma valid_image32: "validated narrow_profile image32 image32_heap = [0x100]"
  by (simp add: validated_def candidates_image32 valid_100)

theorem prefilter_soundness_witness:
  "le_nat (zread image32 (0x101 + bash_hash_table_nbuckets (profile_vtypes narrow_profile)) 4) \<noteq> 64
   \<and> \<not> bash_hash_table_is_valid narrow_profile image32 0x101
   \<and> 0x101 \<notin> set (validated narrow_profile image32 image32_heap)
   \<and> scan_offset narrow_profile image32 0x101 = Some (Inr [])"
proof -
  have h: "le_nat (zread image32 (0x101 + bash_hash_table_nbuckets (profile_vtypes narrow_profile)) 4) \<noteq> 64"
    by (simp add: narrow_simps bash_hash_vtypes_32_def zread_4 read_4 image32_at)
  show ?thesis
    using h prefilter_soundness [OF h, of image32_heap] by simp
qed

theorem prefilter_entry_count_counterexample:
  "\<not> (le_nat (zread image32 (0x100 + bash_hash_table_nentries (profile_vtypes narrow_profile)) 4) \<noteq> 64
       \<longrightarrow> (0x100::nat) \<notin> set (validated narrow_profile image32 image32_heap))"
  by (simp add: valid_image32 nentries_100)

lemma scan_image32:
  "scan_offsets narrow_profile image32 (heap_range image32_heap) = Some (Inr [0x210, 0x224])"
proof -
  have "scan_offsets narrow_profile image32 (heap_range image32_heap)
      = scan_offsets narrow_profile image32 (candidates narrow_profile image32 image32_heap)"
    unfolding candidates_def by (rule scan_offsets_filter)
  then show ?thesis
    by (simp add: candidates_image32 scan_offset_candidate c100 table_100)
qed

lemma image32_task_simps:
  "pid image32_task = 1234" "comm image32_task = ''bash''"
  "process_address_space image32_task = Some image32"
  "proc_maps image32_task = [image32_heap]"
  "start_brk image32_task = 0x100" "brk image32_task = 0x260"
  by (simp_all add: image32_task_def)

lemma scanned_heap_image32:
  "scanned_heap cfg image32_task = Some (image32, image32_heap)"
  by (simp add: scanned_heap_def image32_task_simps image32_heap_simps)

lemma read_string_numeral:
  "read_string vm a (numeral k) =
     (case vm a of
        None \<Rightarrow> []
      | Some b \<Rightarrow> if b = 0 then [] else b # read_string vm (Suc a) (pred_numeral k))"
  by (simp add: numeral_eq_Suc)

lemma row_210: "render_row narrow_profile (image32_task, image32, 0x210)
   = (1234, ''bash'', Some 3, [0x6c, 0x73], [0x2f, 0x62, 0x69, 0x6e, 0x2f, 0x6c, 0x73])"
  by (simp add: render_row_def string_at_def image32_task_simps eval32 read_string_numeral)

lemma row_224: "render_row narrow_profile (image32_task, image32, 0x224)
   = (1234, ''bash'', Some 1, [0x63, 0x70], [0x2f, 0x62, 0x69, 0x6e, 0x2f, 0x63, 0x70])"
  by (simp add: render_row_def string_at_def image32_task_simps eval32 read_string_numeral)

lemma calculate_image32:
  "calculate cfg narrow_profile [image32_task]
     = Some (Inr [(image32_task, image32, 0x210), (image32_task, image32, 0x224)])"
  by (simp add: scan_task_def scanned_heap_image32 scan_image32 tag_results_def)

text \<open>
  Claim C4. Round trip on the hand-constructed image \<open>image32\<close>: one valid
  table (64 buckets, 2 entries) with one populated bucket of two chained
  entries, found 3 times and once, with flags 0 and 2. The scan of the process
  yields exactly two results, the entries at \<open>0x210\<close> and \<open>0x224\<close>, which are
  different; their rows carry the usage counts 3 and 1.
\<close>
theorem round_trip:
  "calculate \<lparr> SCAN_ALL = False \<rparr> narrow_profile [image32_task]
     = Some (Inr [(image32_task, image32, 0x210), (image32_task, image32, 0x224)])
   \<and> render_text \<lparr> SCAN_ALL = False \<rparr> narrow_profile [image32_task]
     = Some (Inr [(1234, ''bash'', Some 3, [0x6c, 0x73], [0x2f, 0x62, 0x69, 0x6e, 0x2f, 0x6c, 0x73]),
                  (1234, ''bash'', Some 1, [0x63, 0x70], [0x2f, 0x62, 0x69, 0x6e, 0x2f, 0x63, 0x70])])
   \<and> (0x210::nat) \<noteq> 0x224"
  unfolding render_text_def calculate_image32
  by (simp add: row_210 row_224)

lemma scan_task_skipped:
  "scanned_heap cfg t = None \<Longrightarrow> scan_task cfg prof t = Some (Inr [])"
  by (simp add: scan_task_def)

text \<open>
  Claim C9. For a process whose address space and heap area can be obtained:
  when \<open>SCAN_ALL\<close> is false its heap is scanned if and only if its name is
  \<open>bash\<close> (and a process of another name yields nothing), when \<open>SCAN_ALL\<close> is
  true it is scanned whatever its name; and being scanned means that the
  offsets of the heap range are scanned in its address space.
\<close>
theorem scan_selection:
  assumes "process_address_space t = Some proc_as"
    and "find_heap_vma t (proc_maps t) = Some heap_vma"
  shows "(\<not> SCAN_ALL cfg \<longrightarrow>
            (scanned_heap cfg t = Some (proc_as, heap_vma) \<longleftrightarrow> comm t = ''bash'')
            \<and> (comm t \<noteq> ''bash'' \<longrightarrow> scan_task cfg prof t = Some (Inr [])))
    \<and> (SCAN_ALL cfg \<longrightarrow> scanned_heap cfg t = Some (proc_as, heap_vma))
    \<and> (scanned_heap cfg t = Some (proc_as, heap_vma) \<longrightarrow>
          scan_task cfg prof t
            = tag_results t proc_as (scan_offsets prof proc_as (heap_range heap_vma)))"
  using assms by (auto simp: scanned_heap_def scan_task_def)

theorem scan_selection_witness:
  "process_address_space image32_task = Some image32
   \<and> find_heap_vma image32_task (proc_maps image32_task) = Some image32_heap
   \<and> scanned_heap \<lparr> SCAN_ALL = False \<rparr> image32_task = Some (image32, image32_heap)
   \<and> comm image32_task = ''bash''
   \<and> scanned_heap \<lparr> SCAN_ALL = False \<rparr> (image32_task \<lparr> comm := ''sshd'' \<rparr>)
       \<noteq> Some (image32, image32_heap)
   \<and> scan_task \<lparr> SCAN_ALL = False \<rparr> narrow_profile (image32_task \<lparr> comm := ''sshd'' \<rparr>)
       = Some (Inr [])
   \<and> scanned_heap \<lparr> SCAN_ALL = True \<rparr> (image32_task \<lparr> comm := ''sshd'' \<rparr>)
       = Some (image32, image32_heap)"
proof -
  have a: "process_address_space image32_task = Some image32"
    and b: "find_heap_vma image32_task (proc_maps image32_task) = Some image32_heap"
    by (simp_all add: image32_task_simps image32_heap_simps)
  have a': "process_address_space (image32_task \<lparr> comm := ''sshd'' \<rparr>) = Some image32"
    and b': "find_heap_vma (image32_task \<lparr> comm := ''sshd'' \<rparr>)
               (proc_maps (image32_task \<lparr> comm := ''sshd'' \<rparr>)) = Some image32_heap"
    by (simp_all add: image32_task_simps image32_heap_simps)
  show ?thesis
    using a b scan_selection [OF a b, of "\<lparr> SCAN_ALL = False \<rparr>" narrow_profile]
      scan_selection [OF a' b', of "\<lparr> SCAN_ALL = False \<rparr>" narrow_profile]
      scan_selection [OF a' b', of "\<lparr> SCAN_ALL = True \<rparr>" narrow_profile]
    by (simp add: image32_task_simps)
qed

subsection \<open>The validator, chain traversal and failures\<close>


lemma read_Some_first: "read vm a n = Some bs \<Longrightarrow> 0 < n \<Longrightarrow> vm a \<noteq> None"
  by (cases n) (auto split: option.splits)

lemma modification_bucket_array:
  "bash_hash_table_bucket_array (profile_vtypes (modification base)) = 0"
  by (simp add: modification_def bash_hash_vtypes_32_def bash_hash_vtypes_64_def)

lemma modification_pointer_size: "pointer_size (modification base) = pointer_size base"
  by (simp add: modification_def)

lemma pointer_is_valid_mapped:
  assumes "pointer_is_valid prof vm a" "0 < pointer_size prof"
  shows "is_valid_address vm a"
proof -
  from assms(1) obtain bs where "read vm a (pointer_size prof) = Some bs"
    by (auto simp: pointer_is_valid_def read_pointer_def split: option.splits)
  with assms(2) show ?thesis
    by (auto simp: is_valid_address_def dest: read_Some_first)
qed

text \<open>
  Claim C2. Under each layout that the profile modification installs (with a
  pointer of at least one byte), the validator accepts the table materialised
  at an offset if and only if its \<open>bucket_array\<close> pointer resolves to mapped
  memory, its \<open>nbuckets\<close> is exactly 64 and its \<open>nentries\<close> is greater than 1;
  an offset that fails one of the three is rejected and yields no result.
\<close>
theorem structure_validator:
  assumes "0 < pointer_size base"
  shows "(bash_hash_table_is_valid (modification base) vm off \<longleftrightarrow>
            pointer_is_valid (modification base) vm
              (off + bash_hash_table_bucket_array (profile_vtypes (modification base)))
            \<and> read_int vm (off + bash_hash_table_nbuckets (profile_vtypes (modification base))) = Some 64
            \<and> (\<exists>n. read_int vm (off + bash_hash_table_nentries (profile_vtypes (modification base))) = Some n
                   \<and> 1 < n))
    \<and> (\<not> bash_hash_table_is_valid (modification base) vm off \<longrightarrow>
          walk_table (modification base) vm off = Some []
          \<and> scan_offset (modification base) vm off = Some (Inr []))"
proof -
  have "CType_is_valid vm off"
    if "pointer_is_valid (modification base) vm
          (off + bash_hash_table_bucket_array (profile_vtypes (modification base)))"
    using that assms pointer_is_valid_mapped [of "modification base" vm off]
    by (simp add: modification_bucket_array modification_pointer_size CType_is_valid_def)
  then show ?thesis
    by (auto simp: is_valid_iff walk_table_invalid scan_offset_candidate)
qed

theorem structure_validator_witness:
  "0 < pointer_size \<lparr> memory_model = Some ''32bit'', pointer_size = 4 \<rparr>
   \<and> bash_hash_table_is_valid narrow_profile image32 0x100
   \<and> read_int image32 (0x100 + bash_hash_table_nbuckets (profile_vtypes narrow_profile)) = Some 64
   \<and> \<not> bash_hash_table_is_valid narrow_profile image32 0x104
   \<and> scan_offset narrow_profile image32 0x104 = Some (Inr [])"
proof -
  have h: "0 < pointer_size \<lparr> memory_model = Some ''32bit'', pointer_size = 4 \<rparr>" by simp
  have n: "\<not> bash_hash_table_is_valid narrow_profile image32 0x104"
    by (simp add: bash_hash_table_is_valid_def CType_is_valid_def eval32)
  show ?thesis
    using h n valid_100 structure_validator [OF h, of image32 "0x100"]
      structure_validator [OF h, of image32 "0x104"]
    by (simp add: narrow_profile_def [symmetric])
qed


lemma chain_node_Suc_Some:
  "chain_node prof vm (Some b) (Suc k) = chain_node prof vm (bucket_next prof vm b) k"
  by simp

lemma walk_chain_visits:
  assumes "\<forall>i<k. loop_condition prof vm (chain_node prof vm bucket i)"
    and "\<not> loop_condition prof vm (chain_node prof vm bucket k)"
  shows "walk_chain prof vm bucket
       = Some (concat (map (\<lambda>i. yield_of prof vm (chain_node prof vm bucket i)) [0..<k]))"
  using assms
proof (induction k arbitrary: bucket)
  case 0
  then show ?case by (simp add: walk_chain_stop)
next
  case (Suc k)
  from Suc.prems(1) have live: "loop_condition prof vm bucket" by force
  then obtain b where b: "bucket = Some b" by (cases bucket) simp_all
  let ?next = "bucket_next prof vm b"
  have "\<forall>i<k. loop_condition prof vm (chain_node prof vm ?next i)"
  proof (intro allI impI)
    fix i assume "i < k"
    then have "Suc i < Suc k" by simp
    with Suc.prems(1) have "loop_condition prof vm (chain_node prof vm bucket (Suc i))"
      by blast
    then show "loop_condition prof vm (chain_node prof vm ?next i)" by (simp add: b)
  qed
  moreover have "\<not> loop_condition prof vm (chain_node prof vm ?next k)"
    using Suc.prems(2) by (simp add: b)
  ultimately have "walk_chain prof vm ?next
       = Some (concat (map (\<lambda>i. yield_of prof vm (chain_node prof vm ?next i)) [0..<k]))"
    by (rule Suc.IH)
  with live show ?case
    by (simp add: b walk_chain_step map_upt_Suc yield_of_def del: upt_Suc)
qed

lemma walk_chain_Some_stops:
  assumes "walk_chain prof vm bucket = Some r"
  shows "\<exists>k. \<not> loop_condition prof vm (chain_node prof vm bucket k)"
proof (rule walk_chain.raw_induct
    [where P = "\<lambda>prof vm bucket r. \<exists>k. \<not> loop_condition prof vm (chain_node prof vm bucket k)",
      OF _ assms], goal_cases)
  case (1 walk prof vm bucket r)
  show ?case
  proof (cases "loop_condition prof vm bucket")
    case False
    then have "\<not> loop_condition prof vm (chain_node prof vm bucket 0)" by simp
    then show ?thesis by blast
  next
    case True
    then obtain b where b: "bucket = Some b" by (cases bucket) simp_all
    with True 1(2) obtain rest where "walk prof vm (bucket_next prof vm b) = Some rest"
      by (auto simp: bind_eq_Some_conv)
    then obtain k where "\<not> loop_condition prof vm (chain_node prof vm (bucket_next prof vm b) k)"
      using 1(1) by blast
    then have "\<not> loop_condition prof vm (chain_node prof vm bucket (Suc k))"
      by (simp add: b)
    then show ?thesis by blast
  qed
qed

lemma length_yield_of: "length (yield_of prof vm bucket) \<le> 1"
  by (simp add: yield_of_def split: option.splits)

lemma length_concat_yields:
  "length (concat (map (\<lambda>i. yield_of prof vm (f i)) [0..<k])) \<le> k"
proof (induction k)
  case 0
  then show ?case by simp
next
  case (Suc k)
  then show ?case using length_yield_of [of prof vm "f k"] by simp
qed

lemma walk_chain_stops_least:
  assumes "\<not> loop_condition prof vm (chain_node prof vm bucket k)"
  shows "\<exists>m\<le>k. walk_chain prof vm bucket
       = Some (concat (map (\<lambda>i. yield_of prof vm (chain_node prof vm bucket i)) [0..<m]))"
proof -
  let ?P = "\<lambda>m. \<not> loop_condition prof vm (chain_node prof vm bucket m)"
  let ?m = "LEAST m. ?P m"
  have "?P ?m" using assms by (rule LeastI)
  moreover have "\<forall>i<?m. loop_condition prof vm (chain_node prof vm bucket i)"
    using not_less_Least by blast
  ultimately have "walk_chain prof vm bucket
       = Some (concat (map (\<lambda>i. yield_of prof vm (chain_node prof vm bucket i)) [0..<?m]))"
    using walk_chain_visits by blast
  moreover have "?m \<le> k" using assms by (rule Least_le)
  ultimately show ?thesis by blast
qed

text \<open>
  Claim C3. When the first \<open>k\<close> buckets of a chain pass the loop condition
  (the bucket could be dereferenced, \<open>times_found > 0\<close>, and the data and key
  pointers resolve) and the bucket after them does not, the traversal returns
  after visiting exactly those \<open>k\<close> buckets, and its results are, in order,
  the visited buckets whose path pointer resolves and whose flags lie in
  \<open>[0, 2]\<close>: a bucket that fails only this test is left out and the traversal
  goes on to its \<open>next\<close>.
\<close>
theorem chain_traversal:
  assumes "\<forall>i<k. loop_condition prof vm (chain_node prof vm bucket i)"
    and "\<not> loop_condition prof vm (chain_node prof vm bucket k)"
  shows "walk_chain prof vm bucket
       = Some (concat (map (\<lambda>i. yield_of prof vm (chain_node prof vm bucket i)) [0..<k]))"
  using assms by (rule walk_chain_visits)

text \<open>
  Claim C6, amended. The traversal of a chain returns if and only if some
  bucket of the chain fails the loop condition (cannot be dereferenced, or
  \<open>times_found \<le> 0\<close>, or a data or key pointer that does not resolve); then it
  yields at most as many results as there are live buckets before that one. A
  chain whose buckets all pass the loop condition, such as a cycle, is
  traversed forever.
\<close>
theorem chain_traversal_terminates_iff:
  "((\<exists>r. walk_chain prof vm bucket = Some r)
      \<longleftrightarrow> (\<exists>k. \<not> loop_condition prof vm (chain_node prof vm bucket k)))
   \<and> (\<forall>k. \<not> loop_condition prof vm (chain_node prof vm bucket k)
          \<longrightarrow> (\<exists>r. walk_chain prof vm bucket = Some r \<and> length r \<le> k))"
proof -
  have "\<exists>r. walk_chain prof vm bucket = Some r \<and> length r \<le> k"
    if "\<not> loop_condition prof vm (chain_node prof vm bucket k)" for k
  proof -
    from that obtain m where m: "m \<le> k" "walk_chain prof vm bucket
       = Some (concat (map (\<lambda>i. yield_of prof vm (chain_node prof vm bucket i)) [0..<m]))"
      using walk_chain_stops_least by blast
    have "length (concat (map (\<lambda>i. yield_of prof vm (chain_node prof vm bucket i)) [0..<m])) \<le> m"
      by (rule length_concat_yields)
    with m show ?thesis by auto
  qed
  then show ?thesis using walk_chain_Some_stops by blast
qed


lemma two_eq: "(2::nat) = Suc (Suc 0)" by simp

lemma image32_chain:
  "chain_node narrow_profile image32 (Some 0x210) 0 = Some 0x210"
  "chain_node narrow_profile image32 (Some 0x210) (Suc 0) = Some 0x224"
  "chain_node narrow_profile image32 (Some 0x210) (Suc (Suc 0)) = None"
  by (simp_all add: nx1 nx2)

theorem chain_traversal_witness:
  "loop_condition narrow_profile image32 (chain_node narrow_profile image32 (Some 0x210) 0)
   \<and> loop_condition narrow_profile image32 (chain_node narrow_profile image32 (Some 0x210) 1)
   \<and> \<not> loop_condition narrow_profile image32 (chain_node narrow_profile image32 (Some 0x210) 2)
   \<and> walk_chain narrow_profile image32 (Some 0x210) = Some [0x210, 0x224]"
proof -
  have a: "\<forall>i<2. loop_condition narrow_profile image32
              (chain_node narrow_profile image32 (Some 0x210) i)"
    by (simp add: two_eq less_Suc_eq image32_chain lc1 lc2 del: chain_node.simps)
  have b: "\<not> loop_condition narrow_profile image32
              (chain_node narrow_profile image32 (Some 0x210) 2)"
    by (simp add: two_eq image32_chain del: chain_node.simps)
  have "[0..<2] = [0, Suc 0]" by (simp add: two_eq)
  then have "walk_chain narrow_profile image32 (Some 0x210) = Some [0x210, 0x224]"
    using chain_traversal [OF a b]
    by (simp add: image32_chain yield_of_def et1 et2 del: chain_node.simps)
  moreover have "loop_condition narrow_profile image32
      (chain_node narrow_profile image32 (Some 0x210) 0)"
    "loop_condition narrow_profile image32
      (chain_node narrow_profile image32 (Some 0x210) 1)"
    by (simp_all add: image32_chain lc1 lc2 del: chain_node.simps)
  ultimately show ?thesis using b by blast
qed

theorem chain_traversal_terminates_iff_witness:
  "\<not> loop_condition narrow_profile image32 (chain_node narrow_profile image32 (Some 0x210) 2)
   \<and> (\<exists>r. walk_chain narrow_profile image32 (Some 0x210) = Some r \<and> length r \<le> 2)"
proof -
  have b: "\<not> loop_condition narrow_profile image32
              (chain_node narrow_profile image32 (Some 0x210) 2)"
    by (simp add: two_eq image32_chain del: chain_node.simps)
  show ?thesis
    using b chain_traversal_terminates_iff [of narrow_profile image32 "Some 0x210"]
    by blast
qed

lemma cyclic32_at: "cyclic32 a = (if 0x100 \<le> a \<and> a < 0x130 then Some (case map_of
  [(0x101, 0x1), (0x104, 0x20), (0x105, 0x1), (0x108, 0x18), (0x109, 0x1), (0x110, 0x1),
   (0x118, 0x20), (0x119, 0x1), (0x120, 0x6c), (0x121, 0x73)] a of None \<Rightarrow> 0 | Some b \<Rightarrow> b) else None)"
  by (simp add: cyclic32_def le_bytes_4 heap_image_def)

lemma cyclic32_valid: "is_valid_address cyclic32 a \<longleftrightarrow> 0x100 \<le> a \<and> a < 0x130"
  by (simp add: is_valid_address_def cyclic32_at)

lemmas eval_cyclic = loop_condition_def read_int_def read_4 pointer_is_valid_def read_pointer_def
  narrow_simps bash_hash_vtypes_32_def cyclic32_valid signed32_def cyclic32_at
  dereference_def entry_test_def bucket_next_def

lemma cyclic32_live: "loop_condition narrow_profile cyclic32 (Some 0x100)"
  by (simp add: eval_cyclic)

lemma cyclic32_next: "bucket_next narrow_profile cyclic32 0x100 = Some 0x100"
  by (simp add: eval_cyclic)

lemma cyclic32_chain: "chain_node narrow_profile cyclic32 (Some 0x100) k = Some 0x100"
  by (induction k) (simp_all add: cyclic32_next)

theorem cyclic_chain_counterexample:
  "walk_chain narrow_profile cyclic32 (Some 0x100) = None"
proof (cases "walk_chain narrow_profile cyclic32 (Some 0x100)")
  case None
  then show ?thesis .
next
  case (Some r)
  then obtain k where
    "\<not> loop_condition narrow_profile cyclic32 (chain_node narrow_profile cyclic32 (Some 0x100) k)"
    using walk_chain_Some_stops by blast
  then show ?thesis by (simp add: cyclic32_chain cyclic32_live)
qed

lemma calculate_append:
  "calculate cfg prof (xs @ ys) = and_then (calculate cfg prof xs) (calculate cfg prof ys)"
  by (induction xs) (simp_all add: and_then_assoc)

lemma scan_task_not_error: "scan_task cfg prof t \<noteq> Some (Inl e)"
proof (cases "scanned_heap cfg t")
  case None
  then show ?thesis by (simp add: scan_task_def)
next
  case (Some p)
  obtain proc_as heap_vma where "p = (proc_as, heap_vma)" by (cases p)
  with Some show ?thesis
    using scan_offsets_not_error [of prof proc_as "heap_range heap_vma" e]
    by (cases "scan_offsets prof proc_as (heap_range heap_vma)")
      (auto simp: scan_task_def tag_results_def map_sum_def split: sum.splits)
qed

lemma calculate_not_error: "calculate cfg prof tasks \<noteq> Some (Inl e)"
  by (induction tasks) (simp_all add: and_then_not_error scan_task_not_error)

lemma read_failure_not_candidate:
  "read vm (off + nbuckets_offset prof) 4 = None \<Longrightarrow> \<not> candidate prof vm off"
  by (simp add: candidate_iff zread_def le_nat_replicate_0)

lemma scanned_heap_None:
  "process_address_space t = None \<or> find_heap_vma t (proc_maps t) = None
   \<Longrightarrow> scanned_heap cfg t = None"
  by (auto simp: scanned_heap_def split: option.splits)

text \<open>
  Claim C7. When the prefilter read at an offset fails, that offset is not a
  candidate and yields nothing, and the scan of a range through it is the scan
  of the offsets before it followed by the scan of the offsets after it. No
  scan of offsets and no run of \<open>calculate\<close> ends in an error, and a process
  without an address space or without a heap area is passed over: the run is
  the run on the other processes.
\<close>
theorem failures_not_fatal:
  assumes "read vm (off + nbuckets_offset prof) 4 = None"
  shows "\<not> candidate prof vm off
    \<and> scan_offset prof vm off = Some (Inr [])
    \<and> scan_offsets prof vm (before @ off # after)
        = and_then (scan_offsets prof vm before) (scan_offsets prof vm after)
    \<and> scan_offsets prof vm offs \<noteq> Some (Inl e)
    \<and> calculate cfg prof tasks \<noteq> Some (Inl e)
    \<and> (process_address_space t = None \<or> find_heap_vma t (proc_maps t) = None \<longrightarrow>
          calculate cfg prof (tasks @ t # tasks') = calculate cfg prof (tasks @ tasks'))"
proof -
  from assms have c: "\<not> candidate prof vm off" by (rule read_failure_not_candidate)
  then have s: "scan_offset prof vm off = Some (Inr [])" by (simp add: scan_offset_candidate)
  have "calculate cfg prof (tasks @ t # tasks') = calculate cfg prof (tasks @ tasks')"
    if "process_address_space t = None \<or> find_heap_vma t (proc_maps t) = None"
    using scanned_heap_None [OF that, of cfg]
    by (simp add: calculate_append scan_task_skipped)
  with c s show ?thesis
    by (simp add: scan_offsets_append scan_offsets_not_error calculate_not_error)
qed

theorem failures_not_fatal_witness:
  "read image32 (0x25d + nbuckets_offset narrow_profile) 4 = None
   \<and> \<not> candidate narrow_profile image32 0x25d
   \<and> scan_offsets narrow_profile image32 ([0x100] @ 0x25d # [0x25e])
        = Some (Inr [0x210, 0x224])
   \<and> calculate \<lparr> SCAN_ALL = False \<rparr> narrow_profile
        ([] @ image32_task \<lparr> process_address_space := None \<rparr> # [image32_task])
        = calculate \<lparr> SCAN_ALL = False \<rparr> narrow_profile ([] @ [image32_task])"
proof -
  have h: "read image32 (0x25d + nbuckets_offset narrow_profile) 4 = None"
    by (simp add: narrow_simps read_4 image32_at)
  have l: "scan_offsets narrow_profile image32 [0x25e] = Some (Inr [])"
    by (simp add: scan_offset_candidate cand_iff)
  have f: "scan_offsets narrow_profile image32 [0x100] = Some (Inr [0x210, 0x224])"
    by (simp add: scan_offset_candidate c100 table_100)
  note t = failures_not_fatal [OF h, of "[0x100]" "[0x25e]" "[]" StructError
        "\<lparr> SCAN_ALL = False \<rparr>" "[]" "image32_task \<lparr> process_address_space := None \<rparr>"
        "[image32_task]"]
  from t have c: "\<not> candidate narrow_profile image32 0x25d" by blast
  from t have "scan_offsets narrow_profile image32 ([0x100] @ 0x25d # [0x25e])
      = and_then (scan_offsets narrow_profile image32 [0x100])
          (scan_offsets narrow_profile image32 [0x25e])" by blast
  then have s: "scan_offsets narrow_profile image32 ([0x100] @ 0x25d # [0x25e])
      = Some (Inr [0x210, 0x224])"
    by (simp only: l f and_then_Nil2)
  have "process_address_space (image32_task \<lparr> process_address_space := None \<rparr>) = None"
    by simp
  with t have "calculate \<lparr> SCAN_ALL = False \<rparr> narrow_profile
        ([] @ image32_task \<lparr> process_address_space := None \<rparr> # [image32_task])
        = calculate \<lparr> SCAN_ALL = False \<rparr> narrow_profile ([] @ [image32_task])"
    by blast
  with h c s show ?thesis by blast
qed

subsection \<open>Independence of the memory width\<close>



lemma pointer_is_valid_dereference:
  "pointer_is_valid prof vm a \<longleftrightarrow> dereference prof vm a \<noteq> None"
  by (simp add: pointer_is_valid_def dereference_def split: option.splits)

lemma loop_condition_view:
  "loop_condition prof vm (Some b) \<longleftrightarrow>
     (case ev_times_found (entry_view prof vm b) of None \<Rightarrow> False | Some t \<Rightarrow> t > 0)
     \<and> ev_data_valid (entry_view prof vm b) \<and> ev_key_valid (entry_view prof vm b)"
  by (simp add: loop_condition_def entry_view_def Let_def)

lemma entry_test_view:
  "entry_test prof vm b \<longleftrightarrow>
     ev_path_valid (entry_view prof vm b)
     \<and> (case ev_flags (entry_view prof vm b) of None \<Rightarrow> False | Some f \<Rightarrow> 0 \<le> f \<and> f \<le> 2)"
  by (simp add: entry_test_def entry_view_def Let_def split: option.splits)

lemma render_row_view:
  "render_row prof (t, vm, b) =
     (pid t, comm t, ev_times_found (entry_view prof vm b), ev_key (entry_view prof vm b),
      ev_path (entry_view prof vm b))"
  by (simp add: render_row_def entry_view_def Let_def)

lemma same_entries_view:
  "same_entries p1 vm1 p2 vm2 R \<Longrightarrow> R a b \<Longrightarrow> entry_view p1 vm1 a = entry_view p2 vm2 b"
  by (simp add: same_entries_def)

lemma same_entries_next:
  "same_entries p1 vm1 p2 vm2 R \<Longrightarrow> R a b
   \<Longrightarrow> rel_option R (bucket_next p1 vm1 a) (bucket_next p2 vm2 b)"
  by (simp add: same_entries_def)

lemma same_loop_condition:
  assumes "same_entries p1 vm1 p2 vm2 R" "rel_option R b1 b2"
  shows "loop_condition p1 vm1 b1 = loop_condition p2 vm2 b2"
proof (cases b1)
  case None
  with assms(2) have "b2 = None" by (cases b2) simp_all
  with None show ?thesis by simp
next
  case (Some a)
  with assms(2) obtain b where b: "b2 = Some b" "R a b" by (cases b2) simp_all
  with assms(1) have "entry_view p1 vm1 a = entry_view p2 vm2 b" by (simp add: same_entries_view)
  with Some b show ?thesis by (simp add: loop_condition_view)
qed

lemma same_yield_of:
  assumes "same_entries p1 vm1 p2 vm2 R" "rel_option R b1 b2"
  shows "list_all2 R (yield_of p1 vm1 b1) (yield_of p2 vm2 b2)"
proof (cases b1)
  case None
  with assms(2) have "b2 = None" by (cases b2) simp_all
  with None show ?thesis by (simp add: yield_of_def)
next
  case (Some a)
  with assms(2) obtain b where b: "b2 = Some b" "R a b" by (cases b2) simp_all
  with assms(1) have "entry_view p1 vm1 a = entry_view p2 vm2 b" by (simp add: same_entries_view)
  with Some b show ?thesis by (simp add: yield_of_def entry_test_view)
qed

lemma same_chain_node:
  assumes "same_entries p1 vm1 p2 vm2 R" "rel_option R b1 b2"
  shows "rel_option R (chain_node p1 vm1 b1 k) (chain_node p2 vm2 b2 k)"
  using assms(2)
proof (induction k arbitrary: b1 b2)
  case 0
  then show ?case by simp
next
  case (Suc k)
  show ?case
  proof (cases b1)
    case None
    with Suc.prems have "b2 = None" by (cases b2) simp_all
    with None show ?thesis by simp
  next
    case (Some a)
    with Suc.prems obtain b where b: "b2 = Some b" "R a b" by (cases b2) simp_all
    with assms(1) have "rel_option R (bucket_next p1 vm1 a) (bucket_next p2 vm2 b)"
      by (simp add: same_entries_next)
    then have "rel_option R (chain_node p1 vm1 (bucket_next p1 vm1 a) k)
        (chain_node p2 vm2 (bucket_next p2 vm2 b) k)"
      by (rule Suc.IH)
    with Some b show ?thesis by simp
  qed
qed

lemma list_all2_concat_map:
  "(\<And>i. i \<in> set xs \<Longrightarrow> list_all2 R (f i) (g i))
   \<Longrightarrow> list_all2 R (concat (map f xs)) (concat (map g xs))"
  by (induction xs) (simp_all add: list_all2_appendI)

lemma same_walk_chain:
  assumes e: "same_entries p1 vm1 p2 vm2 R" and r: "rel_option R b1 b2"
  shows "rel_option (list_all2 R) (walk_chain p1 vm1 b1) (walk_chain p2 vm2 b2)"
proof -
  have live: "loop_condition p1 vm1 (chain_node p1 vm1 b1 k)
      = loop_condition p2 vm2 (chain_node p2 vm2 b2 k)" for k
    using e same_chain_node [OF e r] by (rule same_loop_condition)
  show ?thesis
  proof (cases "\<exists>k. \<not> loop_condition p1 vm1 (chain_node p1 vm1 b1 k)")
    case True
    let ?P = "\<lambda>m. \<not> loop_condition p1 vm1 (chain_node p1 vm1 b1 m)"
    let ?m = "LEAST m. ?P m"
    from True have stop: "?P ?m" by (rule LeastI_ex)
    have before: "\<forall>i<?m. loop_condition p1 vm1 (chain_node p1 vm1 b1 i)"
      using not_less_Least by blast
    have w1: "walk_chain p1 vm1 b1
       = Some (concat (map (\<lambda>i. yield_of p1 vm1 (chain_node p1 vm1 b1 i)) [0..<?m]))"
      using before stop by (rule walk_chain_visits)
    have w2: "walk_chain p2 vm2 b2
       = Some (concat (map (\<lambda>i. yield_of p2 vm2 (chain_node p2 vm2 b2 i)) [0..<?m]))"
      using before stop by (intro walk_chain_visits) (simp_all add: live)
    have "list_all2 R (concat (map (\<lambda>i. yield_of p1 vm1 (chain_node p1 vm1 b1 i)) [0..<?m]))
        (concat (map (\<lambda>i. yield_of p2 vm2 (chain_node p2 vm2 b2 i)) [0..<?m]))"
      by (intro list_all2_concat_map same_yield_of [OF e] same_chain_node [OF e r])
    with w1 w2 show ?thesis by simp
  next
    case False
    then have "walk_chain p1 vm1 b1 = None"
      using walk_chain_Some_stops [of p1 vm1 b1] by (cases "walk_chain p1 vm1 b1") auto
    moreover from False have "walk_chain p2 vm2 b2 = None"
      using walk_chain_Some_stops [of p2 vm2 b2] by (cases "walk_chain p2 vm2 b2") (auto simp: live)
    ultimately show ?thesis by simp
  qed
qed


lemma same_walk_buckets:
  assumes e: "same_entries p1 vm1 p2 vm2 R"
    and "list_all2 (rel_option R) (map (dereference_as p1 vm1) bps1) (map (dereference_as p2 vm2) bps2)"
  shows "rel_option (list_all2 R) (walk_buckets p1 vm1 bps1) (walk_buckets p2 vm2 bps2)"
proof -
  from assms(2) have "list_all2 (\<lambda>x y. rel_option R (dereference_as p1 vm1 x) (dereference_as p2 vm2 y))
      bps1 bps2"
    by (simp add: list_all2_map1 list_all2_map2)
  then show ?thesis
  proof (induction rule: list_all2_induct)
    case Nil
    then show ?case by simp
  next
    case (Cons x xs y ys)
    from e Cons.hyps(1)
    have "rel_option (list_all2 R) (walk_chain p1 vm1 (dereference_as p1 vm1 x))
        (walk_chain p2 vm2 (dereference_as p2 vm2 y))"
      by (rule same_walk_chain)
    with Cons.IH show ?case
      by (cases "walk_chain p1 vm1 (dereference_as p1 vm1 x)";
          cases "walk_chain p2 vm2 (dereference_as p2 vm2 y)";
          cases "walk_buckets p1 vm1 xs"; cases "walk_buckets p2 vm2 ys")
        (simp_all add: list_all2_appendI)
  qed
qed

lemma walk_table_valid:
  assumes "bash_hash_table_is_valid prof vm off"
  shows "\<exists>base. bucket_heads prof vm off = map (dereference_as prof vm) (bucket_array prof vm base)
     \<and> walk_table prof vm off = walk_buckets prof vm (bucket_array prof vm base)"
proof -
  from assms have "pointer_is_valid prof vm
      (off + bash_hash_table_bucket_array (profile_vtypes prof))"
    by (simp add: is_valid_iff)
  then obtain base where
    "read_pointer prof vm (off + bash_hash_table_bucket_array (profile_vtypes prof)) = Some base"
    by (auto simp: pointer_is_valid_def split: option.splits)
  with assms show ?thesis by (auto simp: bucket_heads_def walk_table_def)
qed

lemma same_walk_table:
  assumes e: "same_entries p1 vm1 p2 vm2 R"
    and v: "bash_hash_table_is_valid p1 vm1 off1" "bash_hash_table_is_valid p2 vm2 off2"
    and h: "list_all2 (rel_option R) (bucket_heads p1 vm1 off1) (bucket_heads p2 vm2 off2)"
  shows "rel_option (list_all2 R) (walk_table p1 vm1 off1) (walk_table p2 vm2 off2)"
proof -
  from v(1) obtain base1 where
    1: "bucket_heads p1 vm1 off1 = map (dereference_as p1 vm1) (bucket_array p1 vm1 base1)"
       "walk_table p1 vm1 off1 = walk_buckets p1 vm1 (bucket_array p1 vm1 base1)"
    using walk_table_valid by blast
  from v(2) obtain base2 where
    2: "bucket_heads p2 vm2 off2 = map (dereference_as p2 vm2) (bucket_array p2 vm2 base2)"
       "walk_table p2 vm2 off2 = walk_buckets p2 vm2 (bucket_array p2 vm2 base2)"
    using walk_table_valid by blast
  from h have "list_all2 (rel_option R)
      (map (dereference_as p1 vm1) (bucket_array p1 vm1 base1))
      (map (dereference_as p2 vm2) (bucket_array p2 vm2 base2))"
    by (simp only: 1 2)
  with e show ?thesis unfolding 1 2 by (rule same_walk_buckets)
qed

lemma rel_outcome_and_then:
  "rel_outcome R r1 r2 \<Longrightarrow> rel_outcome R s1 s2
   \<Longrightarrow> rel_outcome R (and_then r1 s1) (and_then r2 s2)"
  by (auto simp: rel_outcome_def and_then_def list_all2_appendI split: option.splits sum.splits)

lemma rel_outcome_Inr:
  "rel_option (list_all2 R) r s \<Longrightarrow> rel_outcome R (map_option Inr r) (map_option Inr s)"
  by (cases r; cases s) (simp_all add: rel_outcome_def)

lemma scan_offsets_validated:
  "scan_offsets prof vm (heap_range heap_vma) = scan_offsets prof vm (validated prof vm heap_vma)"
proof -
  have a: "scan_offsets prof vm offs
      = scan_offsets prof vm (filter (bash_hash_table_is_valid prof vm) offs)" for offs
  proof (induction offs)
    case Nil
    then show ?case by simp
  next
    case (Cons off offs)
    then show ?case by (simp add: scan_offset_candidate walk_table_invalid)
  qed
  have "scan_offsets prof vm (heap_range heap_vma)
      = scan_offsets prof vm (filter (candidate prof vm) (heap_range heap_vma))"
    by (rule scan_offsets_filter)
  also have "\<dots> = scan_offsets prof vm
      (filter (bash_hash_table_is_valid prof vm) (filter (candidate prof vm) (heap_range heap_vma)))"
    by (rule a)
  finally show ?thesis by (simp only: validated_def candidates_def)
qed

lemma scan_offset_valid:
  "bash_hash_table_is_valid prof vm off
   \<Longrightarrow> scan_offset prof vm off = map_option Inr (walk_table prof vm off)"
  by (simp add: scan_offset_candidate is_valid_candidate)

lemma same_scan_offsets:
  assumes e: "same_entries p1 vm1 p2 vm2 R"
    and "list_all2 (\<lambda>off1 off2. bash_hash_table_is_valid p1 vm1 off1
            \<and> bash_hash_table_is_valid p2 vm2 off2
            \<and> list_all2 (rel_option R) (bucket_heads p1 vm1 off1) (bucket_heads p2 vm2 off2))
          offs1 offs2"
  shows "rel_outcome R (scan_offsets p1 vm1 offs1) (scan_offsets p2 vm2 offs2)"
  using assms(2)
proof (induction rule: list_all2_induct)
  case Nil
  then show ?case by (simp add: rel_outcome_def)
next
  case (Cons x xs y ys)
  from Cons.hyps(1) e
  have "rel_option (list_all2 R) (walk_table p1 vm1 x) (walk_table p2 vm2 y)"
    by (simp add: same_walk_table)
  then have "rel_outcome R (scan_offset p1 vm1 x) (scan_offset p2 vm2 y)"
    using Cons.hyps(1) by (simp add: scan_offset_valid rel_outcome_Inr)
  with Cons.IH show ?case by (simp add: rel_outcome_and_then)
qed

lemma validated_valid:
  "off \<in> set (validated prof vm heap_vma) \<Longrightarrow> bash_hash_table_is_valid prof vm off"
  by (simp add: validated_def)

lemma list_all2_members:
  "list_all2 P xs ys \<Longrightarrow> list_all2 (\<lambda>x y. x \<in> set xs \<and> y \<in> set ys \<and> P x y) xs ys"
  by (auto simp: list_all2_conv_all_nth)

lemma same_scan_heap:
  assumes "equivalent_buffers p1 vm1 heap1 p2 vm2 heap2 R"
  shows "rel_outcome R (scan_offsets p1 vm1 (heap_range heap1))
      (scan_offsets p2 vm2 (heap_range heap2))"
proof -
  from assms have e: "same_entries p1 vm1 p2 vm2 R"
    and t: "list_all2
          (\<lambda>off1 off2. list_all2 (rel_option R) (bucket_heads p1 vm1 off1) (bucket_heads p2 vm2 off2))
          (validated p1 vm1 heap1) (validated p2 vm2 heap2)"
    by (simp_all add: equivalent_buffers_def)
  from t have "list_all2 (\<lambda>off1 off2. bash_hash_table_is_valid p1 vm1 off1
            \<and> bash_hash_table_is_valid p2 vm2 off2
            \<and> list_all2 (rel_option R) (bucket_heads p1 vm1 off1) (bucket_heads p2 vm2 off2))
          (validated p1 vm1 heap1) (validated p2 vm2 heap2)"
    by (rule list_all2_mono [OF list_all2_members]) (auto dest: validated_valid)
  with e have "rel_outcome R (scan_offsets p1 vm1 (validated p1 vm1 heap1))
      (scan_offsets p2 vm2 (validated p2 vm2 heap2))"
    by (rule same_scan_offsets)
  then show ?thesis by (simp add: scan_offsets_validated)
qed

lemma same_rows:
  assumes e: "same_entries p1 vm1 p2 vm2 R" and "pid t1 = pid t2" "comm t1 = comm t2"
    and "list_all2 R xs ys"
  shows "map (render_row p1) (map (\<lambda>b. (t1, vm1, b)) xs)
       = map (render_row p2) (map (\<lambda>b. (t2, vm2, b)) ys)"
  using assms(4)
proof (induction rule: list_all2_induct)
  case Nil
  then show ?case by simp
next
  case (Cons x xs y ys)
  from e Cons.hyps(1) have "entry_view p1 vm1 x = entry_view p2 vm2 y"
    by (rule same_entries_view)
  with Cons.IH assms(2,3) show ?case by (simp add: render_row_view)
qed

text \<open>
  Claim C8. Two processes of the same pid and name whose heap areas are
  structurally equivalent buffers, each laid out under its own profile (the
  narrow and the wide one, or any two), give the same rendered rows (pid,
  name, usage count, key string, path string), in the same order, and the two
  runs agree on whether they return.
\<close>
theorem width_independence:
  assumes "equivalent_buffers p1 vm1 heap1 p2 vm2 heap2 R"
    and "process_address_space t1 = Some vm1" "find_heap_vma t1 (proc_maps t1) = Some heap1"
    and "process_address_space t2 = Some vm2" "find_heap_vma t2 (proc_maps t2) = Some heap2"
    and "pid t1 = pid t2" "comm t1 = comm t2"
  shows "render_text cfg p1 [t1] = render_text cfg p2 [t2]"
proof -
  from assms(1) have e: "same_entries p1 vm1 p2 vm2 R" by (simp add: equivalent_buffers_def)
  let ?s1 = "scan_offsets p1 vm1 (heap_range heap1)"
  let ?s2 = "scan_offsets p2 vm2 (heap_range heap2)"
  have rel: "rel_outcome R ?s1 ?s2" using assms(1) by (rule same_scan_heap)
  have rows: "map_option (map_sum id (map (render_row p1))) (tag_results t1 vm1 ?s1)
      = map_option (map_sum id (map (render_row p2))) (tag_results t2 vm2 ?s2)"
  proof (cases ?s1)
    case None
    with rel have "?s2 = None" by (cases ?s2) (simp_all add: rel_outcome_def)
    with None show ?thesis by (simp add: tag_results_def)
  next
    case (Some r1)
    show ?thesis
    proof (cases r1)
      case (Inl err)
      with Some show ?thesis using scan_offsets_not_error [of p1 vm1 "heap_range heap1" err] by simp
    next
      case (Inr xs)
      with Some rel obtain ys where ys: "?s2 = Some (Inr ys)" "list_all2 R xs ys"
        by (cases ?s2) (auto simp: rel_outcome_def split: sum.splits)
      with e assms(6,7) have "map (render_row p1) (map (\<lambda>b. (t1, vm1, b)) xs)
          = map (render_row p2) (map (\<lambda>b. (t2, vm2, b)) ys)"
        by (intro same_rows)
      with Some Inr ys show ?thesis by (simp add: tag_results_def)
    qed
  qed
  show ?thesis
  proof (cases "SCAN_ALL cfg \<or> comm t1 = ''bash''")
    case True
    with assms(2-5,7) have "scan_task cfg p1 t1 = tag_results t1 vm1 ?s1"
      "scan_task cfg p2 t2 = tag_results t2 vm2 ?s2"
      by (auto simp: scan_task_def scanned_heap_def)
    with rows show ?thesis by (simp add: render_text_def)
  next
    case False
    with assms(2-5,7) have "scan_task cfg p1 t1 = Some (Inr [])"
      "scan_task cfg p2 t2 = Some (Inr [])"
      by (auto simp: scan_task_def scanned_heap_def)
    then show ?thesis by (simp add: render_text_def)
  qed
qed



lemma read_numeral:
  "read vm a (numeral k) =
     (case vm a of
        None \<Rightarrow> None
      | Some b \<Rightarrow> (case read vm (Suc a) (pred_numeral k) of None \<Rightarrow> None | Some bs \<Rightarrow> Some (b # bs)))"
  by (simp add: numeral_eq_Suc)

lemma le_bytes_numeral:
  "le_bytes (numeral k) v = of_nat (v mod 256) # le_bytes (pred_numeral k) (v div 256)"
proof -
  have "le_bytes (Suc (pred_numeral k)) v
      = of_nat (v mod 256) # le_bytes (pred_numeral k) (v div 256)"
    by (rule le_bytes.simps)
  then show ?thesis by (simp only: numeral_eq_Suc [of k, symmetric])
qed

lemma image64_explicit: "image64 = heap_image 0x100 0x388
  [(0x100, 0x10), (0x101, 0x1), (0x108, 0x40), (0x10c, 0x2), (0x138, 0x10), (0x139, 0x3), (0x310, 0x30), (0x311, 0x3), (0x318, 0x70), (0x319, 0x3), (0x320, 0x50), (0x321, 0x3), (0x32c, 0x3), (0x338, 0x73), (0x339, 0x3), (0x340, 0x60), (0x341, 0x3), (0x34c, 0x1), (0x350, 0x76), (0x351, 0x3), (0x360, 0x7e), (0x361, 0x3), (0x368, 0x2), (0x370, 0x6c), (0x371, 0x73), (0x373, 0x63), (0x374, 0x70), (0x376, 0x2f), (0x377, 0x62), (0x378, 0x69), (0x379, 0x6e), (0x37a, 0x2f), (0x37b, 0x6c), (0x37c, 0x73), (0x37e, 0x2f), (0x37f, 0x62), (0x380, 0x69), (0x381, 0x6e), (0x382, 0x2f), (0x383, 0x63), (0x384, 0x70)]"
  by (simp add: image64_def le_bytes_numeral)

lemma image64_at: "image64 a = (if 0x100 \<le> a \<and> a < 0x388 then Some (case map_of
  [(0x100, 0x10), (0x101, 0x1), (0x108, 0x40), (0x10c, 0x2), (0x138, 0x10), (0x139, 0x3), (0x310, 0x30), (0x311, 0x3), (0x318, 0x70), (0x319, 0x3), (0x320, 0x50), (0x321, 0x3), (0x32c, 0x3), (0x338, 0x73), (0x339, 0x3), (0x340, 0x60), (0x341, 0x3), (0x34c, 0x1), (0x350, 0x76), (0x351, 0x3), (0x360, 0x7e), (0x361, 0x3), (0x368, 0x2), (0x370, 0x6c), (0x371, 0x73), (0x373, 0x63), (0x374, 0x70), (0x376, 0x2f), (0x377, 0x62), (0x378, 0x69), (0x379, 0x6e), (0x37a, 0x2f), (0x37b, 0x6c), (0x37c, 0x73), (0x37e, 0x2f), (0x37f, 0x62), (0x380, 0x69), (0x381, 0x6e), (0x382, 0x2f), (0x383, 0x63), (0x384, 0x70)] a of None \<Rightarrow> 0 | Some b \<Rightarrow> b) else None)"
  by (simp only: image64_explicit heap_image_def)

lemma image64_valid: "is_valid_address image64 a \<longleftrightarrow> 0x100 \<le> a \<and> a < 0x388"
  by (simp add: is_valid_address_def image64_explicit heap_image_def)

lemma image64_zero:
  "0x110 \<le> a \<Longrightarrow> a < 0x310 \<Longrightarrow> a < 0x138 \<or> 0x13a \<le> a \<Longrightarrow> image64 a = Some 0"
  by (auto simp add: image64_at)

lemma image64_0x40: "image64 a = Some 0x40 \<Longrightarrow> a = 0x108"
  by (simp add: image64_at split: if_splits)

lemma wide_simps:
  "pointer_size wide_profile = 8"
  "profile_vtypes wide_profile = bash_hash_vtypes_64"
  "nbuckets_offset wide_profile = 8"
  by (simp_all add: wide_profile_def modification_def nbuckets_offset_def bash_hash_vtypes_64_def)

lemmas eval64 = loop_condition_def read_int_def read_4 read_numeral pointer_is_valid_def
  read_pointer_def wide_simps bash_hash_vtypes_64_def image64_valid signed32_def image64_at
  dereference_def entry_test_def bucket_next_def dereference_as_def

lemma c100_64: "candidate wide_profile image64 0x100"
  by (simp add: candidate_iff wide_simps zread_4 read_4 image64_at)

lemma cand_iff_64: "candidate wide_profile image64 off \<longleftrightarrow> off = 0x100"
proof
  assume "candidate wide_profile image64 off"
  then have "image64 (off + 8) = Some 0x40"
    using candidate_first_byte [of wide_profile image64 off] by (simp add: wide_simps)
  then have "off + 8 = 0x108" by (rule image64_0x40)
  then show "off = 0x100" by arith
next
  assume "off = 0x100" then show "candidate wide_profile image64 off" using c100_64 by simp
qed

lemma image64_heap_simps: "vm_start image64_heap = 0x100" "vm_end image64_heap = 0x388"
  by (simp_all add: image64_heap_def)

lemma candidates_image64: "candidates wide_profile image64 image64_heap = [0x100]"
proof -
  have "candidate wide_profile image64 = (\<lambda>off. off = 0x100)"
    by (rule ext) (rule cand_iff_64)
  then show ?thesis
    by (simp add: candidates_def heap_range_def image64_heap_simps filter_eq_upt)
qed

lemma valid_100_64: "bash_hash_table_is_valid wide_profile image64 0x100"
  by (simp add: bash_hash_table_is_valid_def CType_is_valid_def eval64)

lemma valid_image64: "validated wide_profile image64 image64_heap = [0x100]"
  by (simp add: validated_def candidates_image64 valid_100_64)

lemma ptr_100_64: "read_pointer wide_profile image64 0x100 = Some 0x110"
  by (simp add: eval64)


lemma head32:
  assumes "i < 64"
  shows "dereference narrow_profile image32 (0x110 + i * 4) = (if i = 5 then Some 0x210 else None)"
proof (cases "i = 5")
  case True
  then show ?thesis using slot_124 by simp
next
  case False
  with assms have "dereference narrow_profile image32 (0x110 + i * 4) = None"
    by (intro slot_empty) arith+
  with False show ?thesis by simp
qed

lemma heads32:
  "bucket_heads narrow_profile image32 0x100
     = map (\<lambda>i. if i = 5 then Some 0x210 else None) [0..<64]"
proof -
  have "dereference_as narrow_profile image32
          (let slot = 0x110 + i * pointer_size narrow_profile
           in if is_valid_address image32 slot then Some slot else None)
        = (if i = 5 then Some 0x210 else None)" if "i < 64" for i
    using that head32 [OF that] by (simp add: narrow_simps image32_valid dereference_as_def)
  then show ?thesis
    by (simp add: bucket_heads_def narrow_simps bash_hash_vtypes_32_def ptr_100
        bucket_array_def del: upt_Suc)
qed

lemma read_zero:
  "(\<And>i. i < n \<Longrightarrow> vm (a + i) = Some 0) \<Longrightarrow> read vm a n = Some (replicate n 0)"
proof (induction n arbitrary: a)
  case 0
  then show ?case by simp
next
  case (Suc n)
  have "vm a = Some 0" using Suc.prems [of 0] by simp
  moreover have "read vm (Suc a) n = Some (replicate n 0)"
  proof (rule Suc.IH)
    fix i assume "i < n"
    then show "vm (Suc a + i) = Some 0" using Suc.prems [of "Suc i"] by simp
  qed
  ultimately show ?case by simp
qed

lemma slot_empty_64:
  assumes "0x110 \<le> a" "a + 8 \<le> 0x310" "a + 8 \<le> 0x138 \<or> 0x140 \<le> a"
  shows "dereference wide_profile image64 a = None"
proof -
  have "read image64 a 8 = Some (replicate 8 0)"
  proof (rule read_zero)
    fix i :: nat assume "i < 8"
    with assms show "image64 (a + i) = Some 0" by (intro image64_zero) arith+
  qed
  then show ?thesis
    by (simp add: dereference_def read_pointer_def wide_simps image64_valid le_nat_replicate_0)
qed

lemma slot_138: "dereference wide_profile image64 0x138 = Some 0x310"
  by (simp add: eval64)

lemma head64:
  assumes "i < 64"
  shows "dereference wide_profile image64 (0x110 + i * 8) = (if i = 5 then Some 0x310 else None)"
proof (cases "i = 5")
  case True
  then show ?thesis using slot_138 by simp
next
  case False
  with assms have "dereference wide_profile image64 (0x110 + i * 8) = None"
    by (intro slot_empty_64) arith+
  with False show ?thesis by simp
qed

lemma heads64:
  "bucket_heads wide_profile image64 0x100
     = map (\<lambda>i. if i = 5 then Some 0x310 else None) [0..<64]"
proof -
  have "dereference_as wide_profile image64
          (let slot = 0x110 + i * pointer_size wide_profile
           in if is_valid_address image64 slot then Some slot else None)
        = (if i = 5 then Some 0x310 else None)" if "i < 64" for i
    using that head64 [OF that] by (simp add: wide_simps image64_valid dereference_as_def)
  then show ?thesis
    by (simp add: bucket_heads_def wide_simps bash_hash_vtypes_64_def ptr_100_64
        bucket_array_def del: upt_Suc)
qed

lemma same_heads:
  "list_all2 (rel_option image_entries) (bucket_heads narrow_profile image32 0x100)
     (bucket_heads wide_profile image64 0x100)"
  by (simp add: heads32 heads64 list_all2_map1 list_all2_map2 list_all2_same image_entries_def
      del: upt_Suc)

lemmas eval_view = entry_view_def Let_def string_at_def read_string_numeral

lemma view_210: "entry_view narrow_profile image32 0x210
   = \<lparr> ev_times_found = Some 3, ev_key_valid = True, ev_key = [0x6c, 0x73], ev_data_valid = True,
       ev_path_valid = True, ev_flags = Some 0,
       ev_path = [0x2f, 0x62, 0x69, 0x6e, 0x2f, 0x6c, 0x73] \<rparr>"
  by (simp add: eval_view eval32)

lemma view_310: "entry_view wide_profile image64 0x310
   = \<lparr> ev_times_found = Some 3, ev_key_valid = True, ev_key = [0x6c, 0x73], ev_data_valid = True,
       ev_path_valid = True, ev_flags = Some 0,
       ev_path = [0x2f, 0x62, 0x69, 0x6e, 0x2f, 0x6c, 0x73] \<rparr>"
  by (simp add: eval_view eval64)

lemma view_224: "entry_view narrow_profile image32 0x224
   = \<lparr> ev_times_found = Some 1, ev_key_valid = True, ev_key = [0x63, 0x70], ev_data_valid = True,
       ev_path_valid = True, ev_flags = Some 2,
       ev_path = [0x2f, 0x62, 0x69, 0x6e, 0x2f, 0x63, 0x70] \<rparr>"
  by (simp add: eval_view eval32)

lemma view_330: "entry_view wide_profile image64 0x330
   = \<lparr> ev_times_found = Some 1, ev_key_valid = True, ev_key = [0x63, 0x70], ev_data_valid = True,
       ev_path_valid = True, ev_flags = Some 2,
       ev_path = [0x2f, 0x62, 0x69, 0x6e, 0x2f, 0x63, 0x70] \<rparr>"
  by (simp add: eval_view eval64)

lemma nx_310: "bucket_next wide_profile image64 0x310 = Some 0x330"
  by (simp add: eval64)

lemma nx_330: "bucket_next wide_profile image64 0x330 = None"
  by (simp add: eval64)

lemma same_entries_images:
  "same_entries narrow_profile image32 wide_profile image64 image_entries"
  unfolding same_entries_def
proof (intro allI impI)
  fix a b assume "image_entries a b"
  then consider "a = 0x210" "b = 0x310" | "a = 0x224" "b = 0x330"
    by (auto simp: image_entries_def)
  then show "entry_view narrow_profile image32 a = entry_view wide_profile image64 b
      \<and> rel_option image_entries (bucket_next narrow_profile image32 a)
          (bucket_next wide_profile image64 b)"
  proof cases
    case 1
    then show ?thesis
      by (simp add: view_210 view_310 nx1 nx_310 image_entries_def)
  next
    case 2
    then show ?thesis
      by (simp add: view_224 view_330 nx2 nx_330)
  qed
qed

lemma equivalent_images:
  "equivalent_buffers narrow_profile image32 image32_heap wide_profile image64 image64_heap
     image_entries"
  by (simp add: equivalent_buffers_def same_entries_images valid_image32 valid_image64 same_heads)

lemma image64_task_simps:
  "pid image64_task = 1234" "comm image64_task = ''bash''"
  "process_address_space image64_task = Some image64"
  "proc_maps image64_task = [image64_heap]"
  "start_brk image64_task = 0x100" "brk image64_task = 0x388"
  by (simp_all add: image64_task_def)

lemma render_text_image32:
  "render_text cfg narrow_profile [image32_task]
     = Some (Inr [(1234, ''bash'', Some 3, [0x6c, 0x73], [0x2f, 0x62, 0x69, 0x6e, 0x2f, 0x6c, 0x73]),
                  (1234, ''bash'', Some 1, [0x63, 0x70], [0x2f, 0x62, 0x69, 0x6e, 0x2f, 0x63, 0x70])])"
  unfolding render_text_def calculate_image32
  by (simp add: row_210 row_224)

theorem width_independence_witness:
  "equivalent_buffers narrow_profile image32 image32_heap wide_profile image64 image64_heap
     image_entries
   \<and> process_address_space image32_task = Some image32
   \<and> find_heap_vma image32_task (proc_maps image32_task) = Some image32_heap
   \<and> process_address_space image64_task = Some image64
   \<and> find_heap_vma image64_task (proc_maps image64_task) = Some image64_heap
   \<and> pid image32_task = pid image64_task
   \<and> comm image32_task = comm image64_task
   \<and> render_text \<lparr> SCAN_ALL = False \<rparr> wide_profile [image64_task]
     = Some (Inr [(1234, ''bash'', Some 3, [0x6c, 0x73], [0x2f, 0x62, 0x69, 0x6e, 0x2f, 0x6c, 0x73]),
                  (1234, ''bash'', Some 1, [0x63, 0x70], [0x2f, 0x62, 0x69, 0x6e, 0x2f, 0x63, 0x70])])"
proof -
  have a: "process_address_space image32_task = Some image32"
    and b: "find_heap_vma image32_task (proc_maps image32_task) = Some image32_heap"
    and c: "process_address_space image64_task = Some image64"
    and d: "find_heap_vma image64_task (proc_maps image64_task) = Some image64_heap"
    and e: "pid image32_task = pid image64_task"
    and f: "comm image32_task = comm image64_task"
    by (simp_all add: image32_task_simps image32_heap_simps image64_task_simps image64_heap_simps)
  have "render_text \<lparr> SCAN_ALL = False \<rparr> narrow_profile [image32_task]
      = render_text \<lparr> SCAN_ALL = False \<rparr> wide_profile [image64_task]"
    using equivalent_images a b c d e f by (rule width_independence)
  then have "render_text \<lparr> SCAN_ALL = False \<rparr> wide_profile [image64_task]
     = Some (Inr [(1234, ''bash'', Some 3, [0x6c, 0x73], [0x2f, 0x62, 0x69, 0x6e, 0x2f, 0x6c, 0x73]),
                  (1234, ''bash'', Some 1, [0x63, 0x70], [0x2f, 0x62, 0x69, 0x6e, 0x2f, 0x63, 0x70])])"
    by (simp only: render_text_image32)
  with equivalent_images a b c d e f show ?thesis by blast
qed

end
